theory Spec2Isabelle
  imports Main "HOL-Library.Log_Nat" "HOL-Library.Sublist" "HOL-Library.Word"
    "HOL-Library.Monad_Syntax"
begin

section \<open>JavaScript numbers\<close>

text \<open>
  Confidence scores are JavaScript numbers: IEEE 754 binary64 values, every sum and
  quotient rounded to the nearest representable value, ties to the even significand.
  A number is modelled by the rational it denotes. \<open>double_round\<close> is the rounding
  to 53 significant bits; it is exact for the normal range, which holds every value the
  scorer can produce (they lie between \<open>2\<^sup>-\<^sup>5\<^sup>3\<close> and 2). Division by zero, the
  one place where the source can leave the finite numbers, is written out where it
  occurs.
\<close>

type_synonym double = rat

text \<open>The exponent \<open>e\<close> with \<open>2\<^sup>e \<le> x < 2\<^sup>e\<^sup>+\<^sup>1\<close>, for positive \<open>x\<close>.\<close>

definition floor_log2 :: "rat \<Rightarrow> int" where
  "floor_log2 x = (if 1 \<le> x then int (floorlog 2 (nat \<lfloor>x\<rfloor>)) - 1
                   else - int (floorlog 2 (nat \<lceil>1 / x\<rceil> - 1)))"

definition round_half_even :: "rat \<Rightarrow> int" where
  "round_half_even r = (let f = \<lfloor>r\<rfloor>; d = r - of_int f in
     if d < 1 / 2 then f else if 1 / 2 < d then f + 1 else if even f then f else f + 1)"

text \<open>The spacing of the doubles around \<open>x\<close>.\<close>

definition ulp :: "rat \<Rightarrow> rat" where
  "ulp x = 2 powi (floor_log2 x - 52)"

definition double_round :: "rat \<Rightarrow> double" where
  "double_round x = (if x = 0 then 0
     else if x < 0 then - (of_int (round_half_even (- x / ulp (- x))) * ulp (- x))
     else of_int (round_half_even (x / ulp x)) * ulp x)"

text \<open>\<open>x + y\<close> and \<open>x / y\<close> (for \<open>y \<noteq> 0\<close>) on numbers.\<close>

definition fadd :: "double \<Rightarrow> double \<Rightarrow> double" where
  "fadd x y = double_round (x + y)"

definition fdiv :: "double \<Rightarrow> double \<Rightarrow> double" where
  "fdiv x y = double_round (x / y)"

section \<open>JavaScript strings\<close>

text \<open>
  The email inspector keeps its documents as JavaScript strings. A string is modelled as
  a \<open>string\<close>: a list of characters whose codes are the code units of the text, for
  documents whose code units lie below 256. Offsets into a document are JavaScript
  numbers holding integers; they are modelled as \<open>int\<close>, so that the clamping the
  source writes out (\<open>Math.max(0, ...)\<close>) stays visible.
\<close>

definition code :: "char \<Rightarrow> nat" where
  "code c = of_char c"

text \<open>
  \<open>s.substring(a, b)\<close>: both indices are clamped to \<open>[0, s.length]\<close> and swapped when
  the first exceeds the second.
\<close>

definition substring :: "string \<Rightarrow> int \<Rightarrow> int \<Rightarrow> string" where
  "substring s a b =
     (let n = int (length s);
          a' = min (max a 0) n;
          b' = min (max b 0) n;
          lo = min a' b';
          hi = max a' b'
      in take (nat (hi - lo)) (drop (nat lo) s))"

text \<open>
  White space as \<open>trim\<close> sees it, among the code units below 256: tab, line feed,
  vertical tab, form feed, carriage return, space and the no-break space.
\<close>

definition is_space :: "char \<Rightarrow> bool" where
  "is_space c \<longleftrightarrow> code c \<in> {9, 10, 11, 12, 13, 32, 160}"

definition trim :: "string \<Rightarrow> string" where
  "trim s = rev (dropWhile is_space (rev (dropWhile is_space s)))"

text \<open>
  \<open>toLowerCase\<close> on code units below 256: the letters A to Z and the accented
  capitals \<open>0xC0\<close> to \<open>0xDE\<close> (but not the multiplication sign \<open>0xD7\<close>) move up by 32.
\<close>

definition toLowerCase_char :: "char \<Rightarrow> char" where
  "toLowerCase_char c =
     (if (65 \<le> code c \<and> code c \<le> 90) \<or> (192 \<le> code c \<and> code c \<le> 222 \<and> code c \<noteq> 215)
      then char_of (code c + 32) else c)"

definition toLowerCase :: "string \<Rightarrow> string" where
  "toLowerCase s = map toLowerCase_char s"

text \<open>\<open>s.includes(needle)\<close>: \<open>needle\<close> occurs in \<open>s\<close> as a contiguous run.\<close>

fun includes' :: "string \<Rightarrow> string \<Rightarrow> bool" where
  "includes' [] needle = (needle = [])"
| "includes' (c # cs) needle = (prefix needle (c # cs) \<or> includes' cs needle)"

section \<open>Regular expressions\<close>

text \<open>
  The patterns of the source use literals, alternations of literals, character classes
  under a counted or starred quantifier, the word boundary \<open>\b\<close> and the anchors
  \<open>^\<close> and \<open>$\<close> (without the multiline flag). A pattern is the list of its atoms.
\<close>

datatype charset =
    Range char char    \<comment> \<open>\<open>[a-b]\<close>; \<open>\d\<close> is \<open>[0-9]\<close>\<close>
  | OneOf string       \<comment> \<open>\<open>[abc]\<close>\<close>
  | NoneOf string      \<comment> \<open>\<open>[^abc]\<close>\<close>

datatype atom =
    Lit string                      \<comment> \<open>a run of literal characters\<close>
  | Alt "string list"               \<comment> \<open>\<open>(?:a|b|c)\<close>, the alternatives literal\<close>
  | Rep charset nat "nat option"    \<comment> \<open>a class repeated \<open>{lo,hi}\<close>, greedy; no \<open>hi\<close> is \<open>{lo,}\<close>\<close>
  | WordB                           \<comment> \<open>\<open>\b\<close>\<close>
  | Bol                             \<comment> \<open>\<open>^\<close>\<close>
  | Eol                             \<comment> \<open>\<open>$\<close>\<close>

type_synonym regex = "atom list"

fun in_charset :: "charset \<Rightarrow> char \<Rightarrow> bool" where
  "in_charset (Range a b) c = (code a \<le> code c \<and> code c \<le> code b)"
| "in_charset (OneOf s) c = (c \<in> set s)"
| "in_charset (NoneOf s) c = (c \<notin> set s)"

text \<open>A word character, for \<open>\b\<close>: \<open>[A-Za-z0-9_]\<close>.\<close>

definition is_word :: "char \<Rightarrow> bool" where
  "is_word c \<longleftrightarrow> (65 \<le> code c \<and> code c \<le> 90) \<or> (97 \<le> code c \<and> code c \<le> 122) \<or>
     (48 \<le> code c \<and> code c \<le> 57) \<or> code c = 95"

text \<open>
  The matcher looks at a position of the subject: the character before it (none at the
  start) and the rest of the subject from it.
\<close>

definition word_before :: "char option \<Rightarrow> bool" where
  "word_before prev = (case prev of None \<Rightarrow> False | Some c \<Rightarrow> is_word c)"

definition word_after :: "string \<Rightarrow> bool" where
  "word_after rest = (case rest of [] \<Rightarrow> False | c # _ \<Rightarrow> is_word c)"

text \<open>The character before the position reached after \<open>k\<close> more characters.\<close>

definition advance :: "char option \<Rightarrow> string \<Rightarrow> nat \<Rightarrow> char option" where
  "advance prev rest k = (if k = 0 \<or> length rest < k then prev else Some (rest ! (k - 1)))"

text \<open>
  The numbers of characters an atom can consume at a position, in the order the
  backtracking matcher tries them: an alternation from left to right, a greedy
  quantifier from the longest run down to its lower bound.
\<close>

fun choices :: "atom \<Rightarrow> char option \<Rightarrow> string \<Rightarrow> nat list" where
  "choices (Lit s) prev rest = (if prefix s rest then [length s] else [])"
| "choices (Alt ss) prev rest = map length (filter (\<lambda>s. prefix s rest) ss)"
| "choices (Rep cs lo hi) prev rest =
     (let run = length (takeWhile (in_charset cs) rest);
          n = (case hi of None \<Rightarrow> run | Some h \<Rightarrow> min run h)
      in rev [lo ..< Suc n])"
| "choices WordB prev rest = (if word_before prev \<noteq> word_after rest then [0] else [])"
| "choices Bol prev rest = (if prev = None then [0] else [])"
| "choices Eol prev rest = (if rest = [] then [0] else [])"

fun first_some :: "('a \<Rightarrow> 'b option) \<Rightarrow> 'a list \<Rightarrow> 'b option" where
  "first_some f [] = None"
| "first_some f (x # xs) = (case f x of Some y \<Rightarrow> Some y | None \<Rightarrow> first_some f xs)"

text \<open>
  \<open>match_here re prev rest\<close>: the length of the match of \<open>re\<close> that starts at the
  position, if there is one.
\<close>

primrec match_here :: "regex \<Rightarrow> char option \<Rightarrow> string \<Rightarrow> nat option" where
  "match_here [] = (\<lambda>prev rest. Some 0)"
| "match_here (a # re) = (\<lambda>prev rest.
     first_some (\<lambda>k. map_option (\<lambda>m. k + m) (match_here re (advance prev rest k) (drop k rest)))
       (choices a prev rest))"

text \<open>
  The leftmost match at or after a position, as \<open>(index, length)\<close>; \<open>off\<close> is the index
  of the position.
\<close>

fun search :: "regex \<Rightarrow> char option \<Rightarrow> string \<Rightarrow> nat \<Rightarrow> (nat \<times> nat) option" where
  "search re prev [] off = map_option (Pair off) (match_here re prev [])"
| "search re prev (c # cs) off =
     (case match_here re prev (c # cs) of
        Some m \<Rightarrow> Some (off, m)
      | None \<Rightarrow> search re (Some c) cs (Suc off))"

text \<open>\<open>s.match(re)\<close> for a pattern without the global flag, used as a truth value.\<close>

definition test :: "regex \<Rightarrow> string \<Rightarrow> bool" where
  "test re s \<longleftrightarrow> search re None s 0 \<noteq> None"

lemma search_index: "search re prev rest off = Some (j, m) \<Longrightarrow> off \<le> j"
proof (induction rest arbitrary: prev off)
  case Nil
  then show ?case by auto
next
  case (Cons c cs)
  show ?case
  proof (cases "match_here re prev (c # cs)")
    case None
    with Cons.prems have "search re (Some c) cs (Suc off) = Some (j, m)" by simp
    from Cons.IH [OF this] show ?thesis by simp
  next
    case (Some a)
    with Cons.prems show ?thesis by simp
  qed
qed

text \<open>
  \<open>content.matchAll(re)\<close> for a pattern with the global flag: the matches from left to
  right, each search starting where the last match ended (one further after an empty
  match). A match is \<open>(match.index, match[0])\<close>.
\<close>

function matchAll_from :: "regex \<Rightarrow> string \<Rightarrow> nat \<Rightarrow> (nat \<times> string) list" where
  "matchAll_from re content i =
     (if length content < i then []
      else case search re (if i = 0 then None else Some (content ! (i - 1))) (drop i content) i of
        None \<Rightarrow> []
      | Some (j, m) \<Rightarrow>
          (j, take m (drop j content)) # matchAll_from re content (if m = 0 then j + 1 else j + m))"
  by pat_completeness auto
termination
proof (relation "measure (\<lambda>(re, content, i). Suc (length content) - i)", goal_cases)
  case 1
  show ?case by simp
next
  case (2 re content i x2 j m)
  then have "i \<le> j" using search_index by metis
  then show ?case using 2 by (auto split: if_splits)
qed

declare matchAll_from.simps [simp del]

definition matchAll :: "string \<Rightarrow> regex \<Rightarrow> (nat \<times> string) list" where
  "matchAll content re = matchAll_from re content 0"

section \<open>Targets\<close>

text \<open>
  The object literal \<open>{text, startPos, endPos}\<close> that the detector hands to
  \<open>overlaps\<close>; a \<open>ParserTarget\<close> has the same three fields first.
\<close>

record TextSpan =
  "text" :: string
  startPos :: int
  endPos :: int

text \<open>
  The object \<open>getTargetContext\<close> returns: the trimmed 50-character windows around a
  span and the 1-based line of its start.
\<close>

record TargetContext =
  before :: string
  after :: string
  line :: nat

text \<open>
  \<open>class ParserTarget\<close>. \<open>fieldType\<close> and \<open>context\<close> default to \<open>null\<close> in the
  constructor, hence the options. The presentation fields (\<open>domElement\<close>,
  \<open>resizeHandles\<close>, \<open>mappingDropdown\<close>, \<open>overlayDiv\<close>) hold page elements and are
  left out.
\<close>

record ParserTarget = TextSpan +
  confidence :: double
  fieldType :: "string option"
  "context" :: "TargetContext option"

text \<open>\<open>contains(position)\<close>: \<open>position >= this.startPos && position <= this.endPos\<close>.\<close>

definition contains :: "'a TextSpan_scheme \<Rightarrow> int \<Rightarrow> bool" where
  "contains t position \<longleftrightarrow> startPos t \<le> position \<and> position \<le> endPos t"

text \<open>
  \<open>overlaps(other)\<close>:
  \<open>!(this.endPos <= other.startPos || other.endPos <= this.startPos)\<close>.
\<close>

definition overlaps :: "'a TextSpan_scheme \<Rightarrow> 'b TextSpan_scheme \<Rightarrow> bool" where
  "overlaps t other \<longleftrightarrow> \<not> (endPos t \<le> startPos other \<or> endPos other \<le> startPos t)"

section \<open>The pattern catalog\<close>

abbreviation digit :: charset where
  "digit \<equiv> Range (CHR ''0'') (CHR ''9'')"

abbreviation upper :: charset where
  "upper \<equiv> Range (CHR ''A'') (CHR ''Z'')"

text \<open>\<open>[^.!?\n]\<close>\<close>

abbreviation not_terminator :: charset where
  "not_terminator \<equiv> NoneOf [CHR ''.'', CHR ''!'', CHR ''?'', CHR 0x0A]"

text \<open>
  \<open>this.patternRules\<close>, in the order of its keys and, under a key, of its patterns:
  \<^verbatim>\<open>
  building_code: [ /\bSE[A-Z]\d{3,4}\b/g, /\b[A-Z]{2,3}\d{1,4}\b/g ],
  device_id: [ /\b\d{6,10}\b/g, /\bV\d{7,10}\b/g, /\bP\d{5,9}\b/g ],
  job_name: [ /\b(?:Service Call|Alarm)\b[^.!?\n]*/g,
              /\b(?:Device Offline|Line Error|Alarm Active)\b[^.!?\n]*/g ],
  job_trouble_description: [
      /\b(?:Device Offline|Line Error|Alarm Active|Maintenance)\b[^.!?\n]*/g,
      /\b(?:Input Output|Power Supply|Reader|Contact)\b[^.!?\n]*/g ]
  \<close>
\<close>

definition patternRules :: "(string \<times> regex list) list" where
  "patternRules =
     [(''building_code'',
        [[WordB, Lit ''SE'', Rep upper 1 (Some 1), Rep digit 3 (Some 4), WordB],
         [WordB, Rep upper 2 (Some 3), Rep digit 1 (Some 4), WordB]]),
      (''device_id'',
        [[WordB, Rep digit 6 (Some 10), WordB],
         [WordB, Lit ''V'', Rep digit 7 (Some 10), WordB],
         [WordB, Lit ''P'', Rep digit 5 (Some 9), WordB]]),
      (''job_name'',
        [[WordB, Alt [''Service Call'', ''Alarm''], WordB, Rep not_terminator 0 None],
         [WordB, Alt [''Device Offline'', ''Line Error'', ''Alarm Active''], WordB,
          Rep not_terminator 0 None]]),
      (''job_trouble_description'',
        [[WordB, Alt [''Device Offline'', ''Line Error'', ''Alarm Active'', ''Maintenance''], WordB,
          Rep not_terminator 0 None],
         [WordB, Alt [''Input Output'', ''Power Supply'', ''Reader'', ''Contact''], WordB,
          Rep not_terminator 0 None]])]"

section \<open>The confidence scorer\<close>

text \<open>
  \<open>calculateConfidence(fieldType, text, position, content)\<close>, in the three parts its
  comments mark: the bonuses of the field type's own patterns, the context boost and the
  position boost. The three patterns it tests the text against are \<open>/\bSE[A-Z]\d{3,4}\b/\<close>, \<open>/^\d+$/\<close> and
  \<open>/^[VP]\d+$/\<close>. The decimal literals \<open>0.1\<close>, \<open>0.2\<close>, \<open>0.3\<close> denote the doubles
  nearest to them; \<open>0.5\<close> and \<open>1.0\<close> are exact. The quotient
  \<open>position / contentLength\<close> of an empty document is \<open>Infinity\<close> for a positive
  position (which exceeds \<open>0.2\<close>) and \<open>NaN\<close> or \<open>-Infinity\<close> otherwise (which do not).
\<close>

definition patternBonus :: "string \<Rightarrow> string \<Rightarrow> double \<Rightarrow> double" where
  \<comment> \<open>the blocks \<open>if (fieldType === 'building_code')\<close> and \<open>if (fieldType === 'device_id')\<close>\<close>
  "patternBonus ftype txt score =
     (let confidence = score;
          confidence =
            (if ftype = ''building_code'' \<and>
                test [WordB, Lit ''SE'', Rep upper 1 (Some 1), Rep digit 3 (Some 4), WordB] txt
             then fadd confidence (double_round (3 / 10)) else confidence);
          confidence =
            (if ftype = ''building_code'' \<and> 5 \<le> length txt \<and> length txt \<le> 8
             then fadd confidence (double_round (1 / 10)) else confidence);
          confidence =
            (if ftype = ''device_id'' \<and> test [Bol, Rep digit 1 None, Eol] txt
             then fadd confidence (double_round (2 / 10)) else confidence);
          confidence =
            (if ftype = ''device_id'' \<and>
                test [Bol, Rep (OneOf ''VP'') 1 (Some 1), Rep digit 1 None, Eol] txt
             then fadd confidence (double_round (3 / 10)) else confidence);
          confidence =
            (if ftype = ''device_id'' \<and> 6 \<le> length txt \<and> length txt \<le> 10
             then fadd confidence (double_round (2 / 10)) else confidence)
      in confidence)"

definition contextBonus :: "string \<Rightarrow> string \<Rightarrow> int \<Rightarrow> string \<Rightarrow> double \<Rightarrow> double" where
  \<comment> \<open>\<open>// Context boosts: Near certain keywords\<close>\<close>
  "contextBonus ftype txt position content score =
     (let confidence = score;
          windowSize = 100;
          beforeText = substring content (max 0 (position - windowSize)) position;
          afterText = substring content (position + int (length txt))
                        (position + int (length txt) + windowSize);
          contextText = toLowerCase (beforeText @ afterText);
          confidence =
            (if ftype = ''job_name'' \<and> includes' contextText ''service call''
             then fadd confidence (double_round (2 / 10)) else confidence);
          confidence =
            (if ftype = ''job_trouble_description'' \<and>
                (includes' contextText ''device offline'' \<or> includes' contextText ''alarm active'')
             then fadd confidence (double_round (2 / 10)) else confidence);
          confidence =
            (if ftype = ''building_code'' \<and>
                (includes' contextText ''site'' \<or> includes' contextText ''building'')
             then fadd confidence (double_round (1 / 10)) else confidence)
      in confidence)"

definition positionBonus :: "int \<Rightarrow> string \<Rightarrow> double \<Rightarrow> double" where
  \<comment> \<open>\<open>// Position: Body content often more reliable than subject\<close>\<close>
  "positionBonus position content score =
     (let confidence = score;
          contentLength = length content
      in if (if contentLength = 0 then 0 < position
             else double_round (2 / 10) < fdiv (of_int position) (of_nat contentLength))
         then fadd confidence (double_round (1 / 10)) else confidence)"

definition calculateConfidence :: "string \<Rightarrow> string \<Rightarrow> int \<Rightarrow> string \<Rightarrow> double" where
  "calculateConfidence ftype txt position content =
     (let confidence = 1 / 2;
          confidence = patternBonus ftype txt confidence;
          confidence = contextBonus ftype txt position content confidence;
          confidence = positionBonus position content confidence
      in min 1 confidence)"

section \<open>The field detector\<close>

text \<open>\<open>getTargetContext(content, startPos, endPos)\<close>\<close>

definition getTargetContext :: "string \<Rightarrow> int \<Rightarrow> int \<Rightarrow> TargetContext" where
  "getTargetContext content start end' =
     (let windowSize = 50 in
      \<lparr>before = trim (substring content (max 0 (start - windowSize)) start),
       after = trim (substring content end' (min (int (length content)) (end' + windowSize))),
       line = Suc (length (filter (\<lambda>c. c = CHR 0x0A) (substring content 0 start)))\<rparr>)"

text \<open>
  The body of the loop over the matches of one pattern in \<open>autoDetectParserTargets\<close>:
  the match is trimmed, skipped when it overlaps a target already in the list, scored,
  and pushed when its score reaches \<open>0.5\<close>.
\<close>

definition processMatch ::
    "string \<Rightarrow> string \<Rightarrow> ParserTarget list \<Rightarrow> nat \<times> string \<Rightarrow> ParserTarget list" where
  "processMatch content ftype detectedTargets match =
     (let targetText = trim (snd match);
          start = int (fst match);
          end' = start + int (length targetText)
      in if list_ex (\<lambda>t. overlaps t
              \<lparr>text = targetText, startPos = start, endPos = start + int (length targetText)\<rparr>)
            detectedTargets
         then detectedTargets
         else let score = calculateConfidence ftype targetText start content
           in if 1 / 2 \<le> score
              then detectedTargets @
                [\<lparr>text = targetText, startPos = start, endPos = end', confidence = score,
                  fieldType = Some ftype,
                  context = Some (getTargetContext content start (start + int (length targetText)))\<rparr>]
              else detectedTargets)"

definition scanPattern ::
    "string \<Rightarrow> string \<Rightarrow> ParserTarget list \<Rightarrow> regex \<Rightarrow> ParserTarget list" where
  "scanPattern content ftype detectedTargets pattern =
     foldl (processMatch content ftype) detectedTargets (matchAll content pattern)"

definition scanFieldType ::
    "string \<Rightarrow> ParserTarget list \<Rightarrow> string \<times> regex list \<Rightarrow> ParserTarget list" where
  "scanFieldType content detectedTargets rule =
     foldl (scanPattern content (fst rule)) detectedTargets (snd rule)"

text \<open>
  \<open>autoDetectParserTargets()\<close> on the document \<open>this.rawContent\<close>: the list starts
  empty, the catalog is scanned, and the list is sorted by \<open>startPos\<close> (the sort of an
  array is stable).
\<close>

definition autoDetectParserTargets :: "string \<Rightarrow> ParserTarget list" where
  "autoDetectParserTargets content =
     sort_key startPos (foldl (scanFieldType content) [] patternRules)"

text \<open>
  \<open>updateTargetMapping(index, newFieldType)\<close>: nothing happens when the list has no
  target at \<open>index\<close>.
\<close>

definition updateTargetMapping :: "int \<Rightarrow> string \<Rightarrow> ParserTarget list \<Rightarrow> ParserTarget list" where
  "updateTargetMapping index newFieldType detectedTargets =
     (if index < 0 \<or> int (length detectedTargets) \<le> index then detectedTargets
      else let target = detectedTargets ! nat index
        in detectedTargets [nat index := target
             \<lparr>fieldType := Some newFieldType,
              confidence := (if newFieldType \<noteq> ''unmapped''
                             then min 1 (fadd (confidence target) (double_round (2 / 10)))
                             else confidence target)\<rparr>])"

text \<open>\<open>clearAllTargets()\<close>\<close>

definition clearAllTargets :: "ParserTarget list" where
  "clearAllTargets = []"

text \<open>
  The operations that write \<open>this.detectedTargets\<close>, as commands on the list:
  \<open>regenerateTargets()\<close> (a detection pass over the document loaded at that moment),
  \<open>updateTargetMapping(index, newFieldType)\<close> and \<open>clearAllTargets()\<close>. The list is
  empty when the inspector starts (\<open>resetApplicationState\<close>).
\<close>

datatype command = Rescan string | Remap int string | ClearAll

fun step :: "ParserTarget list \<Rightarrow> command \<Rightarrow> ParserTarget list" where
  "step detectedTargets (Rescan content) = autoDetectParserTargets content"
| "step detectedTargets (Remap index newFieldType) =
     updateTargetMapping index newFieldType detectedTargets"
| "step detectedTargets ClearAll = clearAllTargets"

definition run :: "command list \<Rightarrow> ParserTarget list" where
  "run commands = foldl step [] commands"

section \<open>The rule generator\<close>

text \<open>Characters that cannot stand in a string literal of this text as themselves.\<close>

abbreviation dq :: char where "dq \<equiv> CHR 0x22"
abbreviation sq :: char where "sq \<equiv> CHR 0x27"
abbreviation backslash :: char where "backslash \<equiv> CHR 0x5C"
abbreviation nl :: char where "nl \<equiv> CHR 0x0A"
abbreviation cr :: char where "cr \<equiv> CHR 0x0D"

text \<open>
  A number in a template literal, for the integers that offsets are: its decimal digits,
  after a minus sign when it is negative.
\<close>

fun digits :: "nat \<Rightarrow> nat \<Rightarrow> string" where
  "digits 0 n = []"
| "digits (Suc fuel) n =
     (if n < 10 then [char_of (48 + n)]
      else digits fuel (n div 10) @ [char_of (48 + n mod 10)])"

definition show_nat :: "nat \<Rightarrow> string" where
  "show_nat n = digits (Suc n) n"

definition show_int :: "int \<Rightarrow> string" where
  "show_int i = (if i < 0 then CHR ''-'' # show_nat (nat (- i)) else show_nat (nat i))"

text \<open>
  \<open>this.selectionCoords\<close>: the generators read its \<open>start\<close> and \<open>end\<close> only (it also
  carries \<open>line\<close>, \<open>char\<close>, \<open>beforeContext\<close> and \<open>afterContext\<close>).
\<close>

record SelectionCoords =
  start :: int
  "end" :: int



text \<open>\<open>text.replace(/[.*+?^${}()|[\]\\]/g, '\\$&')\<close>\<close>

definition regex_special :: "char list" where
  "regex_special = ''.*+?^${}()|[]'' @ [backslash]"

definition escapeRegex :: "string \<Rightarrow> string" where
  "escapeRegex txt = concat (map (\<lambda>c. if c \<in> set regex_special then [backslash, c] else [c]) txt)"

text \<open>
  \<open>name.charAt(0).toUpperCase() + name.slice(1)\<close>. \<open>toUpperCase\<close> is the host's: it
  takes some code units below 256 to code units above, so the generators take it as a
  parameter.
\<close>

definition capitalize :: "(string \<Rightarrow> string) \<Rightarrow> string \<Rightarrow> string" where
  "capitalize toUpperCase name = toUpperCase (take 1 name) @ drop 1 name"

text \<open>
  The four generators. Each returns the text of a method: the rule object it builds
  first is never used. \<^verbatim>\<open>\n\<close> in a template is a line feed in the text, and
  \<^verbatim>\<open>\\r\\n\<close> is \<^verbatim>\<open>\r\n\<close> there.
\<close>

definition generateRegexRule ::
    "(string \<Rightarrow> string) \<Rightarrow> string \<Rightarrow> string \<Rightarrow> SelectionCoords \<Rightarrow> string" where
  "generateRegexRule toUpperCase name txt coords =
     (let escaped = escapeRegex txt in
      ''// Regex Rule: '' @ name @ [nl] @
      ''static extract'' @ capitalize toUpperCase name @ ''(content) {'' @ [nl] @
      ''    const match = content.match(/'' @ escaped @ ''/);'' @ [nl] @
      ''    return match ? match[1] || match[0] : '' @ [sq, sq] @ '';'' @ [nl] @
      ''}'')"

definition generateCoordinateRule ::
    "(string \<Rightarrow> string) \<Rightarrow> string \<Rightarrow> string \<Rightarrow> SelectionCoords \<Rightarrow> string" where
  "generateCoordinateRule toUpperCase name txt coords =
     ''// Coordinate Rule: '' @ name @ [nl] @
     ''static extract'' @ capitalize toUpperCase name @ ''(content) {'' @ [nl] @
     ''    return content.substring('' @ show_int (start coords) @ '', '' @
        show_int (end coords) @ '').trim();'' @ [nl] @
     ''}''"

definition generateCSSRule ::
    "(string \<Rightarrow> string) \<Rightarrow> string \<Rightarrow> string \<Rightarrow> SelectionCoords \<Rightarrow> string" where
  "generateCSSRule toUpperCase name txt coords =
     ''// CSS Selector Rule: '' @ name @ [nl] @
     ''static extract'' @ capitalize toUpperCase name @ ''(content) {'' @ [nl] @
     ''    // CSS selector simulation'' @ [nl] @
     ''    if (content.includes('' @ [dq] @ txt @ [dq] @ '')) {'' @ [nl] @
     ''        const parts = content.split('' @ [dq] @ txt @ [dq] @ '');'' @ [nl] @
     ''        return parts[1] ? parts[1].split(/['' @ [backslash] @ ''r'' @ [backslash] @ ''n]/)[0].trim() : '' @
        [dq] @ txt @ [dq] @ '';'' @ [nl] @
     ''    }'' @ [nl] @
     ''    return '' @ [sq, sq] @ '';'' @ [nl] @
     ''}''"

definition generateXPathRule ::
    "(string \<Rightarrow> string) \<Rightarrow> string \<Rightarrow> string \<Rightarrow> SelectionCoords \<Rightarrow> string" where
  "generateXPathRule toUpperCase name txt coords =
     ''// XPath Rule: '' @ name @ [nl] @
     ''static extract'' @ capitalize toUpperCase name @ ''(content) {'' @ [nl] @
     ''    // XPath simulation - find content containing '' @ [dq] @ txt @ [dq] @ [nl] @
     ''    const lines = content.split(/['' @ [backslash] @ ''r'' @ [backslash] @ ''n]/);'' @ [nl] @
     ''    const line = lines.find(l => l.includes('' @ [dq] @ txt @ [dq] @ ''));'' @ [nl] @
     ''    return line ? line.replace('' @ [dq] @ txt @ [dq] @ '', '' @ [sq, sq] @
        '').trim() : '' @ [sq, sq] @ '';'' @ [nl] @
     ''}''"

text \<open>
  \<open>this.ruleGenerators[ruleType]\<close>. The object has the four keys of
  \<open>initializeRuleGenerators\<close>; like every object literal it also inherits the members of
  \<open>Object.prototype\<close>, which a lookup by name finds too.
\<close>

datatype 'a lookup = Own 'a | Inherited | Absent

definition objectPrototypeKeys :: "string list" where
  "objectPrototypeKeys =
     [''constructor'', ''hasOwnProperty'', ''isPrototypeOf'', ''propertyIsEnumerable'',
      ''toLocaleString'', ''toString'', ''valueOf'', ''__proto__'',
      ''__defineGetter__'', ''__defineSetter__'', ''__lookupGetter__'', ''__lookupSetter__'']"

definition ruleGenerators ::
    "(string \<Rightarrow> string) \<Rightarrow> string \<Rightarrow> (string \<Rightarrow> string \<Rightarrow> SelectionCoords \<Rightarrow> string) lookup" where
  "ruleGenerators toUpperCase ruleType =
     (if ruleType = ''regex'' then Own (generateRegexRule toUpperCase)
      else if ruleType = ''coordinates'' then Own (generateCoordinateRule toUpperCase)
      else if ruleType = ''css'' then Own (generateCSSRule toUpperCase)
      else if ruleType = ''xpath'' then Own (generateXPathRule toUpperCase)
      else if ruleType \<in> set objectPrototypeKeys then Inherited
      else Absent)"

text \<open>
  \<open>generateRule()\<close>, on the values it reads from the page (\<open>ruleType\<close>, \<open>ruleName\<close>)
  and from the inspector (\<open>selectedText\<close>, \<open>selectionCoords\<close>). What it does is one of:
  an \<open>alert\<close> with a message; a call of \<open>addRuleToOutput\<close> with the text of a rule;
  nothing at all; or, for a rule type that names a member of \<open>Object.prototype\<close>, a call
  of that member, which is not followed further.
\<close>

datatype outcome = Alert string | AddRuleToOutput string | Nothing | CallsInherited

definition generateRule ::
    "(string \<Rightarrow> string) \<Rightarrow> string \<Rightarrow> string \<Rightarrow> string \<Rightarrow> SelectionCoords \<Rightarrow> outcome" where
  "generateRule toUpperCase ruleType ruleName selectedText selectionCoords =
     (if selectedText = [] then Alert ''Please select some text first to generate a rule.''
      else if trim ruleName = [] then Alert ''Please enter a rule name.''
      else case ruleGenerators toUpperCase ruleType of
             Own generator \<Rightarrow> AddRuleToOutput (generator ruleName selectedText selectionCoords)
           | Inherited \<Rightarrow> CallsInherited
           | Absent \<Rightarrow> Nothing)"

section \<open>What the generated methods compute\<close>

text \<open>
  A generator returns the text of a method of a class, into which the rule name and the
  selected text are pasted. This section reads such a text back as JavaScript:
  \<open>readMethod\<close> recognises methods of the four shapes that the generators write, with
  the literals they hold, and \<open>runMethod\<close> is what a method of such a shape returns on a
  document. \<open>None\<close> says that the text is not of one of these shapes. Such a text may
  still be a method, for a pasted text can close a literal and go on as a program of its
  own; nothing is said about it here.
\<close>

subsection \<open>The operations of the methods\<close>

text \<open>
  \<open>s.split(sep)\<close> for a string \<open>sep\<close>: the pieces between the occurrences of \<open>sep\<close>
  found from left to right; for the empty separator, the code units of \<open>s\<close>.
\<close>

function split_at :: "string \<Rightarrow> string \<Rightarrow> string \<Rightarrow> string list" where
  "split_at sep piece [] = [rev piece]"
| "split_at sep piece (c # cs) =
     (if sep \<noteq> [] \<and> prefix sep (c # cs)
      then rev piece # split_at sep [] (drop (length sep) (c # cs))
      else split_at sep (c # piece) cs)"
  by pat_completeness auto
termination
  by (relation "measure (\<lambda>(sep, piece, s). length s)") (auto simp: neq_Nil_conv)

definition split :: "string \<Rightarrow> string \<Rightarrow> string list" where
  "split s sep = (if sep = [] then map (\<lambda>c. [c]) s else split_at sep [] s)"

text \<open>\<open>s.split(/[\r\n]/)\<close>: the pieces between the line break characters.\<close>

fun split_lines_at :: "string \<Rightarrow> string \<Rightarrow> string list" where
  "split_lines_at piece [] = [rev piece]"
| "split_lines_at piece (c # cs) =
     (if c = cr \<or> c = nl then rev piece # split_lines_at [] cs
      else split_lines_at (c # piece) cs)"

definition split_lines :: "string \<Rightarrow> string list" where
  "split_lines s = split_lines_at [] s"

text \<open>\<open>s.replace(pattern, '')\<close> for a string pattern: its first occurrence is removed.\<close>

fun remove_first :: "string \<Rightarrow> string \<Rightarrow> string" where
  "remove_first [] pat = []"
| "remove_first (c # cs) pat =
     (if prefix pat (c # cs) then drop (length pat) (c # cs) else c # remove_first cs pat)"

text \<open>
  \<^verbatim>\<open>const match = content.match(/lit/); return match ? match[1] || match[0] : '';\<close>
  for a regular expression that matches the text \<open>lit\<close>, which is not empty, and has
  no group: \<open>match[1]\<close> is undefined, and the method returns the matched text, or the
  empty string without a match.
\<close>

definition runRegexRule :: "string \<Rightarrow> string \<Rightarrow> string" where
  "runRegexRule lit content =
     (case search [Lit lit] None content 0 of
        Some (j, m) \<Rightarrow> take m (drop j content)
      | None \<Rightarrow> [])"

text \<open>\<^verbatim>\<open>return content.substring(start, end).trim();\<close>\<close>

definition runCoordinateRule :: "SelectionCoords \<Rightarrow> string \<Rightarrow> string" where
  "runCoordinateRule coords content = trim (substring content (start coords) (end coords))"

text \<open>
  \<^verbatim>\<open>
  if (content.includes(v1)) {
      const parts = content.split(v2);
      return parts[1] ? parts[1].split(/[\r\n]/)[0].trim() : v3;
  }
  return '';
  \<close>
  for three string literals with the values \<open>v1\<close>, \<open>v2\<close> and \<open>v3\<close>.
\<close>

definition runCSSRule :: "string \<Rightarrow> string \<Rightarrow> string \<Rightarrow> string \<Rightarrow> string" where
  "runCSSRule v1 v2 v3 content =
     (if includes' content v1
      then (let parts = split content v2 in
            if 1 < length parts \<and> parts ! 1 \<noteq> []
            then trim (hd (split_lines (parts ! 1)))
            else v3)
      else [])"

text \<open>
  \<^verbatim>\<open>
  const lines = content.split(/[\r\n]/);
  const line = lines.find(l => l.includes(v1));
  return line ? line.replace(v2, '').trim() : '';
  \<close>
  for two string literals with the values \<open>v1\<close> and \<open>v2\<close>.
\<close>

definition runXPathRule :: "string \<Rightarrow> string \<Rightarrow> string \<Rightarrow> string" where
  "runXPathRule v1 v2 content =
     (case find (\<lambda>l. includes' l v1) (split_lines content) of
        None \<Rightarrow> []
      | Some l \<Rightarrow> if l = [] then [] else trim (remove_first l v2))"

datatype extractor =
    RegexMethod string
  | CoordinateMethod SelectionCoords
  | CSSMethod string string string
  | XPathMethod string string

fun evalMethod :: "extractor \<Rightarrow> string \<Rightarrow> string" where
  "evalMethod (RegexMethod lit) content = runRegexRule lit content"
| "evalMethod (CoordinateMethod coords) content = runCoordinateRule coords content"
| "evalMethod (CSSMethod v1 v2 v3) content = runCSSRule v1 v2 v3 content"
| "evalMethod (XPathMethod v1 v2) content = runXPathRule v1 v2 content"

subsection \<open>Reading the text of a method\<close>

text \<open>\<open>strip p s\<close> is what follows \<open>p\<close> in \<open>s\<close>, when \<open>s\<close> begins with \<open>p\<close>.\<close>

fun strip :: "string \<Rightarrow> string \<Rightarrow> string option" where
  "strip [] s = Some s"
| "strip (p # ps) [] = None"
| "strip (p # ps) (c # cs) = (if p = c then strip ps cs else None)"

text \<open>
  The rest of a line comment, up to and with the line feed that ends it. A carriage
  return ends a comment too; a text with one there is not read.
\<close>

fun skip_line :: "string \<Rightarrow> string option" where
  "skip_line [] = None"
| "skip_line (c # cs) = (if c = nl then Some cs else if c = cr then None else skip_line cs)"

text \<open>The characters of an identifier that are read: letters, digits, \<open>_\<close> and \<open>$\<close>.\<close>

definition is_digit :: "char \<Rightarrow> bool" where
  "is_digit c \<longleftrightarrow> 48 \<le> code c \<and> code c \<le> 57"

definition ident_char :: "char \<Rightarrow> bool" where
  "ident_char c \<longleftrightarrow>
     is_digit c \<or> (65 \<le> code c \<and> code c \<le> 90) \<or> (97 \<le> code c \<and> code c \<le> 122) \<or>
     c = CHR ''_'' \<or> c = CHR ''$''"

text \<open>
  The head of a method: a line comment, then \<^verbatim>\<open>static extractName(content) {\<close> and a
  line feed. The result is the text after it.
\<close>

definition read_head :: "string \<Rightarrow> string option" where
  "read_head method =
     do { r1 \<leftarrow> strip ''//'' method;
          r2 \<leftarrow> skip_line r1;
          r3 \<leftarrow> strip ''static extract'' r2;
          strip (''(content) {'' @ [nl]) (dropWhile ident_char r3) }"

text \<open>
  The body of a regular expression literal, after its first slash and up to the slash
  that closes it: a backslash before one of the special characters stands for that
  character, and every other character but a special one, a slash or a line break
  stands for itself. The result is the text that the expression matches, and the text
  after the literal.
\<close>

fun read_regex_body :: "string \<Rightarrow> (string \<times> string) option" where
  "read_regex_body [] = None"
| "read_regex_body [c] = (if c = CHR ''/'' then Some ([], []) else None)"
| "read_regex_body (c # d # cs) =
     (if c = CHR ''/'' then Some ([], d # cs)
      else if c = backslash then
        (if d \<in> set regex_special
         then map_option (apfst ((#) d)) (read_regex_body cs) else None)
      else if c \<in> set regex_special \<or> c = nl \<or> c = cr then None
      else map_option (apfst ((#) c)) (read_regex_body (d # cs)))"

text \<open>
  Further arguments of a call, each a comma and a regular expression literal of the same
  kind that is not empty, as in \<^verbatim>\<open>content.match(/a/,/b/)\<close>: \<open>match\<close> takes no notice
  of them. The result is the text after the last of them.
\<close>

fun more_arguments :: "string \<Rightarrow> string option"
  and more_body :: "bool \<Rightarrow> string \<Rightarrow> string option" where
  "more_arguments [] = Some []"
| "more_arguments [c] = Some [c]"
| "more_arguments (c # d # cs) =
     (if c = CHR '','' \<and> d = CHR ''/'' then more_body True cs else Some (c # d # cs))"
| "more_body first [] = None"
| "more_body first [c] = (if c = CHR ''/'' \<and> \<not> first then Some [] else None)"
| "more_body first (c # d # cs) =
     (if c = CHR ''/'' then (if first then None else more_arguments (d # cs))
      else if c = backslash then
        (if d \<in> set regex_special then more_body False cs else None)
      else if c \<in> set regex_special \<or> c = nl \<or> c = cr then None
      else more_body False (d # cs))"

text \<open>
  The character that \<open>d\<close> stands for after a backslash in a string literal. The
  escapes with \<open>x\<close>, \<open>u\<close> or a digit and the line continuations are not read.
\<close>

definition escape_value :: "char \<Rightarrow> char option" where
  "escape_value d =
     (if d = CHR ''n'' then Some nl
      else if d = CHR ''r'' then Some cr
      else if d = CHR ''t'' then Some (CHR 0x09)
      else if d = CHR ''b'' then Some (CHR 0x08)
      else if d = CHR ''f'' then Some (CHR 0x0C)
      else if d = CHR ''v'' then Some (CHR 0x0B)
      else if d = CHR ''x'' \<or> d = CHR ''u'' \<or> is_digit d \<or> d = nl \<or> d = cr then None
      else Some d)"

text \<open>
  The body of a string literal in double quotes, after the first quote and up to the
  quote that closes it. The result is the value of the literal, and the text after it.
\<close>

fun read_string_body :: "string \<Rightarrow> (string \<times> string) option" where
  "read_string_body [] = None"
| "read_string_body [c] = (if c = dq then Some ([], []) else None)"
| "read_string_body (c # d # cs) =
     (if c = dq then Some ([], d # cs)
      else if c = nl \<or> c = cr then None
      else if c = backslash then
        (case escape_value d of
           None \<Rightarrow> None
         | Some v \<Rightarrow> map_option (apfst ((#) v)) (read_string_body cs))
      else map_option (apfst ((#) c)) (read_string_body (d # cs)))"

text \<open>
  A decimal literal for an integer up to \<open>2 ^ 53\<close>, which a number holds exactly. A
  literal with a leading zero is not read.
\<close>

definition read_number :: "string \<Rightarrow> (int \<times> string) option" where
  "read_number s =
     (let ds = takeWhile is_digit s;
          n = foldl (\<lambda>a c. 10 * a + (int (code c) - 48)) 0 ds
      in if ds = [] \<or> (1 < length ds \<and> hd ds = CHR ''0'') \<or> 2 ^ 53 < n then None
         else Some (n, dropWhile is_digit s))"

text \<open>The four bodies, each up to the brace that closes the method.\<close>

definition readRegexMethod :: "string \<Rightarrow> extractor option" where
  "readRegexMethod body =
     do { r1 \<leftarrow> strip ''    const match = content.match(/'' body;
          (lit, r2) \<leftarrow> read_regex_body r1;
          r3 \<leftarrow> more_arguments r2;
          r4 \<leftarrow> strip ('');'' @ [nl] @
                  ''    return match ? match[1] || match[0] : '' @ [sq, sq] @ '';'' @ [nl] @
                  ''}'') r3;
          if r4 = [] \<and> lit \<noteq> [] then Some (RegexMethod lit) else None }"

definition readCoordinateMethod :: "string \<Rightarrow> extractor option" where
  "readCoordinateMethod body =
     do { r1 \<leftarrow> strip ''    return content.substring('' body;
          (a, r2) \<leftarrow> read_number r1;
          r3 \<leftarrow> strip '', '' r2;
          (b, r4) \<leftarrow> read_number r3;
          r5 \<leftarrow> strip ('').trim();'' @ [nl] @ ''}'') r4;
          if r5 = [] then Some (CoordinateMethod \<lparr>start = a, end = b\<rparr>) else None }"

definition readCSSMethod :: "string \<Rightarrow> extractor option" where
  "readCSSMethod body =
     do { r1 \<leftarrow> strip (''    // CSS selector simulation'' @ [nl] @
                  ''    if (content.includes('' @ [dq]) body;
          (v1, r2) \<leftarrow> read_string_body r1;
          r3 \<leftarrow> strip ('')) {'' @ [nl] @
                  ''        const parts = content.split('' @ [dq]) r2;
          (v2, r4) \<leftarrow> read_string_body r3;
          r5 \<leftarrow> strip ('');'' @ [nl] @
                  ''        return parts[1] ? parts[1].split(/['' @ [backslash] @ ''r'' @
                  [backslash] @ ''n]/)[0].trim() : '' @ [dq]) r4;
          (v3, r6) \<leftarrow> read_string_body r5;
          r7 \<leftarrow> strip ('';'' @ [nl] @
                  ''    }'' @ [nl] @
                  ''    return '' @ [sq, sq] @ '';'' @ [nl] @
                  ''}'') r6;
          if r7 = [] then Some (CSSMethod v1 v2 v3) else None }"

definition readXPathMethod :: "string \<Rightarrow> extractor option" where
  "readXPathMethod body =
     do { r1 \<leftarrow> strip ''    //'' body;
          r2 \<leftarrow> skip_line r1;
          r3 \<leftarrow> strip (''    const lines = content.split(/['' @ [backslash] @ ''r'' @
                  [backslash] @ ''n]/);'' @ [nl] @
                  ''    const line = lines.find(l => l.includes('' @ [dq]) r2;
          (v1, r4) \<leftarrow> read_string_body r3;
          r5 \<leftarrow> strip (''));'' @ [nl] @
                  ''    return line ? line.replace('' @ [dq]) r4;
          (v2, r6) \<leftarrow> read_string_body r5;
          r7 \<leftarrow> strip ('', '' @ [sq, sq] @ '').trim() : '' @ [sq, sq] @ '';'' @ [nl] @
                  ''}'') r6;
          if r7 = [] then Some (XPathMethod v1 v2) else None }"

definition readMethod :: "string \<Rightarrow> extractor option" where
  "readMethod method =
     do { body \<leftarrow> read_head method;
          case readRegexMethod body of
            Some m \<Rightarrow> Some m
          | None \<Rightarrow>
              (case readCoordinateMethod body of
                 Some m \<Rightarrow> Some m
               | None \<Rightarrow>
                   (case readCSSMethod body of
                      Some m \<Rightarrow> Some m
                    | None \<Rightarrow> readXPathMethod body)) }"

definition runMethod :: "string \<Rightarrow> string \<Rightarrow> string option" where
  "runMethod method content = map_option (\<lambda>m. evalMethod m content) (readMethod method)"


text \<open>
  The host's \<open>toUpperCase\<close> on a text of ASCII characters, for the concrete runs of the
  generators.
\<close>

definition toUpperCase_ascii :: "string \<Rightarrow> string" where
  "toUpperCase_ascii s =
     map (\<lambda>c. if 97 \<le> code c \<and> code c \<le> 122 then char_of (code c - 32) else c) s"

section \<open>The text normalizer\<close>

text \<open>
  The normalizer handles text that the host's decoders produce, which holds any UTF-16
  code unit; here a JavaScript string is the list of its code units, as numbers, and
  \<open>units\<close> turns a text of this theory into one. A byte of an \<open>ArrayBuffer\<close> is an
  8-bit word.
\<close>

type_synonym ustring = "nat list"
type_synonym byte = "8 word"

definition units :: "string \<Rightarrow> ustring" where
  "units s = map of_char s"

text \<open>What arrives as \<open>content\<close>: a string, an \<open>ArrayBuffer\<close>, or anything else.\<close>

datatype content = Text ustring | Buffer "byte list" | Other

text \<open>\<open>/[\x00-\x1F\x7F]/\<close>, the characters the printable count leaves out.\<close>

definition is_control :: "nat \<Rightarrow> bool" where
  "is_control c \<longleftrightarrow> c \<le> 0x1F \<or> c = 0x7F"

text \<open>\<open>/[\x01-\x08\x0B\x0C\x0E-\x1F\x7F]/\<close>\<close>

definition is_stripped_control :: "nat \<Rightarrow> bool" where
  "is_stripped_control c \<longleftrightarrow>
     (0x01 \<le> c \<and> c \<le> 0x08) \<or> c = 0x0B \<or> c = 0x0C \<or> (0x0E \<le> c \<and> c \<le> 0x1F) \<or> c = 0x7F"

text \<open>\<open>s.replace(/\x00/g, '').replace(/[\x01-\x08\x0B\x0C\x0E-\x1F\x7F]/g, '')\<close>\<close>

definition stripControls :: "ustring \<Rightarrow> ustring" where
  "stripControls s = filter (\<lambda>c. \<not> is_stripped_control c) (filter (\<lambda>c. c \<noteq> 0x00) s)"

subsection \<open>The hexadecimal dump\<close>

text \<open>\<open>n.toString(16)\<close> and \<open>s.padStart(width, '0')\<close>\<close>

definition hex_digit :: "nat \<Rightarrow> char" where
  "hex_digit d = (if d < 10 then char_of (48 + d) else char_of (87 + d))"

fun hex_digits :: "nat \<Rightarrow> nat \<Rightarrow> string" where
  "hex_digits 0 n = []"
| "hex_digits (Suc fuel) n =
     (if n < 16 then [hex_digit n]
      else hex_digits fuel (n div 16) @ [hex_digit (n mod 16)])"

definition toString16 :: "nat \<Rightarrow> string" where
  "toString16 n = hex_digits (Suc n) n"

definition padStart :: "nat \<Rightarrow> char \<Rightarrow> string \<Rightarrow> string" where
  "padStart width c s = replicate (width - length s) c @ s"

text \<open>\<open>pieces.join(sep)\<close>\<close>

fun join :: "string \<Rightarrow> string list \<Rightarrow> string" where
  "join sep [] = []"
| "join sep [p] = p"
| "join sep (p # q # ps) = p @ sep @ join sep (q # ps)"

text \<open>
  One line of the dump, for the chunk of at most 16 bytes at \<open>offset\<close>: the offset in
  eight hexadecimal digits, the bytes in two digits each (two spaces where the chunk
  has no byte), and between bars the bytes from 32 to 126 as characters, a dot for any
  other byte and a space where the chunk has no byte.
\<close>

definition hexLine :: "nat \<Rightarrow> byte list \<Rightarrow> string" where
  "hexLine offset chunk =
     (let charsPerLine = 16;
          hexRow = map (\<lambda>i. if i < length chunk
                              then padStart 2 (CHR ''0'') (toString16 (unat (chunk ! i)))
                              else ''  '') [0 ..< charsPerLine];
          charRow = map (\<lambda>i. if i < length chunk
                               then (if 32 \<le> unat (chunk ! i) \<and> unat (chunk ! i) \<le> 126
                                     then char_of (unat (chunk ! i)) else CHR ''.'')
                               else CHR '' '') [0 ..< charsPerLine]
      in padStart 8 (CHR ''0'') (toString16 offset) @ '': '' @ join '' '' hexRow @
         ''  |'' @ charRow @ ''|'')"

text \<open>The loop \<open>for (let offset = 0; offset < view.length; offset += charsPerLine)\<close>.\<close>

function hexLines :: "nat \<Rightarrow> byte list \<Rightarrow> string list" where
  "hexLines offset view =
     (if view = [] then []
      else hexLine offset (take 16 view) # hexLines (offset + 16) (drop 16 view))"
  by pat_completeness auto
termination
  by (relation "measure (\<lambda>(offset, view). length view)") auto

declare hexLines.simps [simp del]

text \<open>
  \<open>convertContentToHex(content, filename, asText)\<close>; both values of \<open>asText\<close> give the
  same result. A string is first encoded by the host's \<open>TextEncoder\<close>, which is the
  parameter \<open>encode\<close>.
\<close>

definition convertContentToHex ::
    "(ustring \<Rightarrow> byte list) \<Rightarrow> content \<Rightarrow> ustring \<Rightarrow> ustring" where
  "convertContentToHex encode content filename =
     (case (case content of
              Buffer bytes \<Rightarrow> Some bytes
            | Text s \<Rightarrow> Some (encode s)
            | Other \<Rightarrow> None) of
        None \<Rightarrow> units ''Cannot convert content to hexadecimal''
      | Some view \<Rightarrow>
          units ''Hexadecimal dump of '' @ filename @ units '' ('' @
          units (show_nat (length view)) @ units '' bytes):'' @ [0x0A, 0x0A] @
          units (join [CHR 0x0A] (hexLines 0 view)))"

subsection \<open>Decoding\<close>

text \<open>
  \<open>convertContentToDisplayableText(content, filename)\<close>. The host's \<open>TextDecoder\<close> is
  the parameter \<open>decode\<close>: \<open>decode encoding bytes\<close> is the decoded text, or \<open>None\<close> when
  the decoder throws, which the loop catches to go on with the next encoding. The
  quotient \<open>printableChars / decoded.length\<close> of an empty text is \<open>NaN\<close>, which is not
  greater than \<open>0.3\<close>.
\<close>

definition encodings :: "string list" where
  "encodings = [''utf-8'', ''iso-8859-1'', ''windows-1252'', ''utf-16le'', ''utf-16be'']"

definition looksValid :: "ustring \<Rightarrow> bool" where
  "looksValid decoded =
     (let printableChars = length (filter (\<lambda>c. \<not> is_control c) decoded)
      in decoded \<noteq> [] \<and>
         double_round (3 / 10) < fdiv (of_nat printableChars) (of_nat (length decoded)))"

fun tryEncodings ::
    "(string \<Rightarrow> byte list \<Rightarrow> ustring option) \<Rightarrow> byte list \<Rightarrow> string list \<Rightarrow> ustring option" where
  "tryEncodings decode bytes [] = None"
| "tryEncodings decode bytes (encoding # rest) =
     (case decode encoding bytes of
        None \<Rightarrow> tryEncodings decode bytes rest
      | Some decoded \<Rightarrow>
          if looksValid decoded then Some (stripControls decoded)
          else tryEncodings decode bytes rest)"

definition convertContentToDisplayableText ::
    "(string \<Rightarrow> byte list \<Rightarrow> ustring option) \<Rightarrow> (ustring \<Rightarrow> byte list) \<Rightarrow>
     content \<Rightarrow> ustring \<Rightarrow> ustring" where
  "convertContentToDisplayableText decode encode content filename =
     (case content of
        Text s \<Rightarrow> stripControls s
      | Buffer bytes \<Rightarrow>
          (case tryEncodings decode bytes encodings of
             Some decoded \<Rightarrow> decoded
           | None \<Rightarrow> convertContentToHex encode content filename)
      | Other \<Rightarrow> units ''Unable to display content as text'')"

subsection \<open>The decoders of the Encoding Standard\<close>

text \<open>
  The decoders a browser gives to \<open>new TextDecoder(label, {fatal: false})\<close>, as the
  Encoding Standard defines them: an instance of the parameter \<open>decode\<close>, used to run the
  normalizer on concrete buffers. A decoder yields code points; a malformed sequence
  yields U+FFFD; a byte order mark at the start of the output is dropped.
\<close>

function utf8_decode :: "nat \<Rightarrow> nat \<Rightarrow> nat \<Rightarrow> nat \<Rightarrow> nat list \<Rightarrow> nat list" where
  "utf8_decode cp needed lo hi [] = (if needed \<noteq> 0 then [0xFFFD] else [])"
| "utf8_decode cp needed lo hi (b # bs) =
     (if needed = 0 then
        (if b \<le> 0x7F then b # utf8_decode 0 0 0x80 0xBF bs
         else if 0xC2 \<le> b \<and> b \<le> 0xDF then utf8_decode (b mod 0x20) 1 0x80 0xBF bs
         else if 0xE0 \<le> b \<and> b \<le> 0xEF then
           utf8_decode (b mod 0x10) 2 (if b = 0xE0 then 0xA0 else 0x80)
             (if b = 0xED then 0x9F else 0xBF) bs
         else if 0xF0 \<le> b \<and> b \<le> 0xF4 then
           utf8_decode (b mod 0x08) 3 (if b = 0xF0 then 0x90 else 0x80)
             (if b = 0xF4 then 0x8F else 0xBF) bs
         else 0xFFFD # utf8_decode 0 0 0x80 0xBF bs)
      else if b < lo \<or> hi < b then 0xFFFD # utf8_decode 0 0 0x80 0xBF (b # bs)
      else if needed = 1 then (cp * 0x40 + b mod 0x40) # utf8_decode 0 0 0x80 0xBF bs
      else utf8_decode (cp * 0x40 + b mod 0x40) (needed - 1) 0x80 0xBF bs)"
  by pat_completeness auto
termination
  by (relation "measures [\<lambda>(cp, needed, lo, hi, bs). length bs,
                           \<lambda>(cp, needed, lo, hi, bs). needed]") auto

text \<open>Index 0x80 to 0x9F of windows-1252; every other byte is its own code point.\<close>

definition windows1252_high :: "nat list" where
  "windows1252_high =
     [0x20AC, 0x0081, 0x201A, 0x0192, 0x201E, 0x2026, 0x2020, 0x2021,
      0x02C6, 0x2030, 0x0160, 0x2039, 0x0152, 0x008D, 0x017D, 0x008F,
      0x0090, 0x2018, 0x2019, 0x201C, 0x201D, 0x2022, 0x2013, 0x2014,
      0x02DC, 0x2122, 0x0161, 0x203A, 0x0153, 0x009D, 0x017E, 0x0178]"

definition windows1252_decode :: "nat list \<Rightarrow> nat list" where
  "windows1252_decode bs =
     map (\<lambda>b. if 0x80 \<le> b \<and> b \<le> 0x9F then windows1252_high ! (b - 0x80) else b) bs"

text \<open>
  The shared UTF-16 decoder; \<open>be\<close> tells the byte order, \<open>lead\<close> is the pending lead
  surrogate. Two bytes make a code unit; a lead surrogate waits for a trail surrogate,
  and is replaced when another unit follows, which is then read again.
\<close>

function utf16_decode :: "bool \<Rightarrow> nat option \<Rightarrow> nat list \<Rightarrow> nat list" where
  "utf16_decode be lead [] = (case lead of None \<Rightarrow> [] | Some l \<Rightarrow> [0xFFFD])"
| "utf16_decode be lead [b] = [0xFFFD]"
| "utf16_decode be lead (b1 # b2 # bs) =
     (let u = (if be then b1 * 0x100 + b2 else b2 * 0x100 + b1) in
      case lead of
        Some l \<Rightarrow>
          if 0xDC00 \<le> u \<and> u \<le> 0xDFFF
          then (0x10000 + (l - 0xD800) * 0x400 + (u - 0xDC00)) # utf16_decode be None bs
          else 0xFFFD # utf16_decode be None (b1 # b2 # bs)
      | None \<Rightarrow>
          if 0xD800 \<le> u \<and> u \<le> 0xDBFF then utf16_decode be (Some u) bs
          else if 0xDC00 \<le> u \<and> u \<le> 0xDFFF then 0xFFFD # utf16_decode be None bs
          else u # utf16_decode be None bs)"
  by pat_completeness auto
termination
  by (relation "measures [\<lambda>(be, lead, bs). length bs,
                           \<lambda>(be, lead, bs). (case lead of None \<Rightarrow> 0 | Some l \<Rightarrow> 1)]") auto

text \<open>A code point as UTF-16 code units.\<close>

definition to_units :: "nat \<Rightarrow> nat list" where
  "to_units cp =
     (if cp < 0x10000 then [cp]
      else [0xD800 + (cp - 0x10000) div 0x400, 0xDC00 + (cp - 0x10000) mod 0x400])"

definition drop_bom :: "nat list \<Rightarrow> nat list" where
  "drop_bom cps = (case cps of [] \<Rightarrow> [] | c # cs \<Rightarrow> if c = 0xFEFF then cs else c # cs)"

text \<open>The label \<open>iso-8859-1\<close> names the windows-1252 encoding.\<close>

definition textDecoder :: "string \<Rightarrow> byte list \<Rightarrow> ustring option" where
  "textDecoder label bytes =
     (let bs = map unat bytes in
      if label = ''utf-8'' then Some (concat (map to_units (drop_bom (utf8_decode 0 0 0x80 0xBF bs))))
      else if label = ''iso-8859-1'' \<or> label = ''windows-1252'' then Some (windows1252_decode bs)
      else if label = ''utf-16le'' then Some (concat (map to_units (drop_bom (utf16_decode False None bs))))
      else if label = ''utf-16be'' then Some (concat (map to_units (drop_bom (utf16_decode True None bs))))
      else None)"

text \<open>
  The selection rule as the specification words it, to compare: a decoded text qualifies
  when at least 30% of its characters are printable, the printable characters being
  ASCII \<open>0x20\<close> to \<open>0x7E\<close>, the line feed and the tab.
\<close>

definition spec_printable :: "nat \<Rightarrow> bool" where
  "spec_printable c \<longleftrightarrow> (0x20 \<le> c \<and> c \<le> 0x7E) \<or> c = 0x0A \<or> c = 0x09"

definition spec_qualifies :: "ustring \<Rightarrow> bool" where
  "spec_qualifies decoded \<longleftrightarrow>
     3 * length decoded \<le> 10 * length (filter spec_printable decoded)"

section \<open>Example documents\<close>

text \<open>The input text of example scenario 1 of the specification.\<close>

definition scenario1 :: string where
  "scenario1 =
     ''...Service Call B-802641 - SEA124 - Alarm Active - P3 - Reader - P296563983-13...''"

section \<open>Rounding is monotone\<close>

lemma round_half_even_cases:
  "round_half_even r = \<lfloor>r\<rfloor> \<or> round_half_even r = \<lfloor>r\<rfloor> + 1"
  by (simp add: round_half_even_def Let_def)

lemma round_half_even_of_int: "round_half_even (of_int n) = n"
  by (simp add: round_half_even_def Let_def)

lemma round_half_even_mono:
  assumes "r \<le> s"
  shows "round_half_even r \<le> round_half_even s"
proof (cases "\<lfloor>r\<rfloor> = \<lfloor>s\<rfloor>")
  case True
  then have "r - of_int \<lfloor>r\<rfloor> \<le> s - of_int \<lfloor>s\<rfloor>" using assms by simp
  then show ?thesis using True
    by (auto simp: round_half_even_def Let_def)
next
  case False
  then have "\<lfloor>r\<rfloor> + 1 \<le> \<lfloor>s\<rfloor>" using floor_mono [OF assms] by linarith
  moreover have "round_half_even r \<le> \<lfloor>r\<rfloor> + 1"
    using round_half_even_cases [of r] by linarith
  moreover have "\<lfloor>s\<rfloor> \<le> round_half_even s"
    using round_half_even_cases [of s] by linarith
  ultimately show ?thesis by linarith
qed

lemma floor_log2_bounds:
  assumes "0 < x"
  shows "2 powi (floor_log2 x) \<le> x \<and> x < 2 powi (floor_log2 x + 1)"
proof (cases "1 \<le> x")
  case True
  define n where "n = nat \<lfloor>x\<rfloor>"
  define k where "k = floorlog 2 n"
  have n: "0 < n" using True by (simp add: n_def)
  have b: "2 ^ (k - 1) \<le> n \<and> n < 2 ^ k"
    using floorlog_bounds [of n 2] n by (simp add: k_def)
  have kpos: "0 < k" using b n by (cases k) auto
  have e: "floor_log2 x = int k - 1" using True by (simp add: floor_log2_def k_def n_def)
  have nx: "rat_of_nat n \<le> x" using True by (simp add: n_def) 
  have xn: "x < rat_of_nat n + 1" using True by (simp add: n_def) linarith
  have "rat_of_nat (2 ^ (k - 1)) \<le> rat_of_nat n" using b by (simp only: of_nat_le_iff)
  then have "rat_of_nat (2 ^ (k - 1)) \<le> x" using nx by (rule order_trans)
  then have l: "(2::rat) ^ (k - 1) \<le> x" by simp
  have "Suc n \<le> 2 ^ k" using b by simp
  then have "rat_of_nat (Suc n) \<le> rat_of_nat (2 ^ k)" by (simp only: of_nat_le_iff)
  then have "x < rat_of_nat (2 ^ k)" using xn by simp
  then have u: "x < (2::rat) ^ k" by simp
  have p1: "(2::rat) powi (int k - 1) = 2 ^ (k - 1)" using kpos by (simp add: power_int_def nat_diff_distrib')
  have p2: "(2::rat) powi (int k - 1 + 1) = 2 ^ k" by (simp add: power_int_def)
  show ?thesis using l u by (simp only: e p1 p2)
next
  case False
  define y where "y = 1 / x"
  define n where "n = nat \<lceil>y\<rceil>"
  define m where "m = n - 1"
  define k where "k = floorlog 2 m"
  have y1: "1 < y" using False assms by (simp add: y_def)
  have n2: "2 \<le> n" using y1 by (simp add: n_def) linarith
  have m: "0 < m" using n2 by (simp add: m_def)
  have b: "2 ^ (k - 1) \<le> m \<and> m < 2 ^ k"
    using floorlog_bounds [of m 2] m by (simp add: k_def)
  have e: "floor_log2 x = - int k" using False by (simp add: floor_log2_def k_def n_def m_def y_def)
  have yn: "y \<le> rat_of_nat n" using y1 by (simp add: n_def)
  have ny: "rat_of_nat m < y" using y1 n2 by (simp add: n_def m_def) linarith
  have "n \<le> 2 ^ k" using b n2 unfolding m_def by linarith
  then have "rat_of_nat n \<le> rat_of_nat (2 ^ k)" by (simp only: of_nat_le_iff)
  with yn have "y \<le> rat_of_nat (2 ^ k)" by (rule order_trans)
  then have u: "y \<le> 2 ^ k" by simp
  have "rat_of_nat (2 ^ (k - 1)) \<le> rat_of_nat m" using b by (simp only: of_nat_le_iff)
  then have "rat_of_nat (2 ^ (k - 1)) < y" using ny by (rule le_less_trans)
  then have l: "2 ^ (k - 1) < y" by simp
  have kpos: "0 < k" using b m by (cases k) auto
  have x: "x = 1 / y" by (simp add: y_def)
  have l': "1 / 2 ^ k \<le> x" unfolding x using u y1 by (simp add: field_simps)
  have u': "x < 1 / 2 ^ (k - 1)" unfolding x using l y1 by (simp add: field_simps)
  have p1: "(2::rat) powi (- int k) = 1 / 2 ^ k" by (simp add: power_int_def field_simps)
  have p2: "(2::rat) powi (- int k + 1) = 1 / 2 ^ (k - 1)"
    using kpos by (cases k) (simp_all add: power_int_def field_simps)
  show ?thesis using l' u' by (simp only: e p1 p2)
qed

lemma floor_log2_mono:
  assumes "0 < x" "x \<le> y"
  shows "floor_log2 x \<le> floor_log2 y"
proof (rule ccontr)
  assume "\<not> floor_log2 x \<le> floor_log2 y"
  then have "floor_log2 y + 1 \<le> floor_log2 x" by simp
  then have "(2::rat) powi (floor_log2 y + 1) \<le> 2 powi (floor_log2 x)"
    by (intro power_int_increasing) auto
  moreover have "y < 2 powi (floor_log2 y + 1)" using floor_log2_bounds [of y] assms by simp
  moreover have "2 powi (floor_log2 x) \<le> x" using floor_log2_bounds [of x] assms by simp
  ultimately show False using assms by linarith
qed

lemma ulp_pos: "0 < ulp x"
  by (simp add: ulp_def)

lemma double_round_pos_bounds:
  assumes "0 < x"
  shows "2 powi (floor_log2 x) \<le> double_round x \<and> double_round x \<le> 2 powi (floor_log2 x + 1)"
proof -
  let ?e = "floor_log2 x"
  have q: "ulp x = 2 powi (?e - 52)" by (simp add: ulp_def)
  have lo: "2 powi ?e = of_int (2 ^ 52) * ulp x"
    unfolding q by (simp add: power_int_diff)
  have hi: "2 powi (?e + 1) = of_int (2 ^ 53) * ulp x"
    unfolding q by (simp add: power_int_diff power_int_add)
  have "of_int (2 ^ 52) \<le> x / ulp x"
    using floor_log2_bounds [OF assms] ulp_pos [of x] unfolding lo by (simp add: field_simps)
  from round_half_even_mono [OF this]
  have a: "2 ^ 52 \<le> round_half_even (x / ulp x)" by (simp only: round_half_even_of_int)
  have "x / ulp x \<le> of_int (2 ^ 53)"
    using floor_log2_bounds [OF assms] ulp_pos [of x] unfolding hi by (simp add: field_simps)
  from round_half_even_mono [OF this]
  have b: "round_half_even (x / ulp x) \<le> 2 ^ 53" by (simp only: round_half_even_of_int)
  have dr: "double_round x = of_int (round_half_even (x / ulp x)) * ulp x"
    using assms by (simp add: double_round_def)
  have a': "rat_of_int (2 ^ 52) \<le> of_int (round_half_even (x / ulp x))"
    using a by (simp only: of_int_le_iff)
  have b': "rat_of_int (round_half_even (x / ulp x)) \<le> of_int (2 ^ 53)"
    using b by (simp only: of_int_le_iff)
  have "rat_of_int (2 ^ 52) * ulp x \<le> of_int (round_half_even (x / ulp x)) * ulp x"
    using a' less_imp_le [OF ulp_pos [of x]] by (rule mult_right_mono)
  moreover have "of_int (round_half_even (x / ulp x)) * ulp x \<le> rat_of_int (2 ^ 53) * ulp x"
    using b' less_imp_le [OF ulp_pos [of x]] by (rule mult_right_mono)
  ultimately show ?thesis unfolding lo hi dr by simp
qed

lemma double_round_mono_pos:
  assumes "0 < x" "x \<le> y"
  shows "double_round x \<le> double_round y"
proof (cases "floor_log2 x = floor_log2 y")
  case True
  then have q: "ulp x = ulp y" by (simp add: ulp_def)
  have "x / ulp y \<le> y / ulp y" using assms ulp_pos [of y] by (simp add: divide_right_mono)
  from round_half_even_mono [OF this]
  have "rat_of_int (round_half_even (x / ulp y)) * ulp y \<le> of_int (round_half_even (y / ulp y)) * ulp y"
    using ulp_pos [of y] by (intro mult_right_mono) simp_all
  then show ?thesis using assms by (simp add: double_round_def q)
next
  case False
  then have "floor_log2 x + 1 \<le> floor_log2 y" using floor_log2_mono [OF assms] by simp
  then have "(2::rat) powi (floor_log2 x + 1) \<le> 2 powi (floor_log2 y)"
    by (intro power_int_increasing) auto
  moreover have "double_round x \<le> 2 powi (floor_log2 x + 1)"
    using double_round_pos_bounds [of x] assms by simp
  moreover have "2 powi (floor_log2 y) \<le> double_round y"
    using double_round_pos_bounds [of y] assms by simp
  ultimately show ?thesis by linarith
qed

lemma double_round_half: "double_round (1 / 2) = 1 / 2"
  by code_simp

lemma double_round_one: "double_round 1 = 1"
  by code_simp

lemma double_round_ge_half: "1 / 2 \<le> x \<Longrightarrow> 1 / 2 \<le> double_round x"
  using double_round_mono_pos [of "1 / 2" x] by (simp add: double_round_half)


lemma double_round_tenths:
  "0 \<le> double_round (1 / 10)" "0 \<le> double_round (2 / 10)" "0 \<le> double_round (3 / 10)"
  by code_simp+

lemma fadd_ge_half: "1 / 2 \<le> x \<Longrightarrow> 0 \<le> y \<Longrightarrow> 1 / 2 \<le> fadd x y"
  unfolding fadd_def by (rule double_round_ge_half) simp

lemma bonus_ge_half:
  "1 / 2 \<le> x \<Longrightarrow> 0 \<le> y \<Longrightarrow> 1 / 2 \<le> (if b then fadd x y else x)"
  using fadd_ge_half [of x y] by (cases b) (simp_all only: if_True if_False)

section \<open>The scorer and the detector\<close>

lemma patternBonus_ge_half: "1 / 2 \<le> c \<Longrightarrow> 1 / 2 \<le> patternBonus ftype txt c"
  unfolding patternBonus_def Let_def
  by (intro bonus_ge_half double_round_tenths) 

lemma contextBonus_ge_half: "1 / 2 \<le> c \<Longrightarrow> 1 / 2 \<le> contextBonus ftype txt position content c"
  unfolding contextBonus_def Let_def
  by (intro bonus_ge_half double_round_tenths)

lemma positionBonus_ge_half: "1 / 2 \<le> c \<Longrightarrow> 1 / 2 \<le> positionBonus position content c"
  unfolding positionBonus_def Let_def
  by (intro bonus_ge_half double_round_tenths)

lemma calculateConfidence_ge_half: "1 / 2 \<le> calculateConfidence ftype txt position content"
proof -
  have "(1::rat) / 2 \<le> 1 / 2" by simp
  from positionBonus_ge_half [OF contextBonus_ge_half [OF patternBonus_ge_half [OF this]]]
  show ?thesis by (simp add: calculateConfidence_def Let_def)
qed

lemma calculateConfidence_le_one: "calculateConfidence ftype txt position content \<le> 1"
  by (simp add: calculateConfidence_def Let_def)


lemma foldl_invariant:
  assumes "I a" and "\<And>a x. x \<in> set xs \<Longrightarrow> I a \<Longrightarrow> I (f a x)"
  shows "I (foldl f a xs)"
  using assms by (induction xs arbitrary: a) auto

lemma processMatch_cases:
  "processMatch content ftype reg m = reg \<or>
   (\<not> list_ex (\<lambda>u. overlaps u \<lparr>text = trim (snd m), startPos = int (fst m),
        endPos = int (fst m) + int (length (trim (snd m)))\<rparr>) reg \<and>
    processMatch content ftype reg m = reg @
      [\<lparr>text = trim (snd m), startPos = int (fst m),
        endPos = int (fst m) + int (length (trim (snd m))),
        confidence = calculateConfidence ftype (trim (snd m)) (int (fst m)) content,
        fieldType = Some ftype,
        context = Some (getTargetContext content (int (fst m))
                    (int (fst m) + int (length (trim (snd m)))))\<rparr>])"
  by (simp add: processMatch_def Let_def)

lemma detect_invariant:
  assumes init: "I []"
    and step: "\<And>ftype patterns pattern m reg.
      (ftype, patterns) \<in> set patternRules \<Longrightarrow> pattern \<in> set patterns \<Longrightarrow>
      m \<in> set (matchAll content pattern) \<Longrightarrow> I reg \<Longrightarrow> I (processMatch content ftype reg m)"
  shows "I (foldl (scanFieldType content) [] patternRules)"
proof (rule foldl_invariant [where I = I and a = "[]"])
  show "I []" by (rule init)
next
  fix reg rule
  assume r: "rule \<in> set patternRules" and i: "I reg"
  obtain ftype patterns where rule: "rule = (ftype, patterns)" by (cases rule)
  show "I (scanFieldType content reg rule)"
    unfolding scanFieldType_def rule fst_conv snd_conv
  proof (rule foldl_invariant [where I = I and a = reg])
    show "I reg" by (rule i)
  next
    fix reg' pattern
    assume p: "pattern \<in> set patterns" and i': "I reg'"
    show "I (scanPattern content ftype reg' pattern)"
      unfolding scanPattern_def
    proof (rule foldl_invariant [where I = I and a = reg'])
      show "I reg'" by (rule i')
    next
      fix reg'' m
      assume "m \<in> set (matchAll content pattern)" and "I reg''"
      then show "I (processMatch content ftype reg'' m)"
        using step r p unfolding rule by blast
    qed
  qed
qed

lemma overlaps_sym: "overlaps a b = overlaps b a"
  by (auto simp: overlaps_def)

lemma sorted_wrt_insort_key:
  assumes "\<And>a b. P a b \<Longrightarrow> P b a"
  shows "sorted_wrt P (insort_key f x xs) = ((\<forall>y\<in>set xs. P x y) \<and> sorted_wrt P xs)"
  using assms by (induction xs) (auto simp: set_insort_key)

lemma sorted_wrt_sort_key:
  assumes "\<And>a b. P a b \<Longrightarrow> P b a" and "sorted_wrt P xs"
  shows "sorted_wrt P (sort_key f xs)"
  using assms(2)
proof (induction xs)
  case Nil
  then show ?case by simp
next
  case (Cons x xs)
  then show ?case
    by (simp add: sorted_wrt_insort_key [of P, OF assms(1)])
qed

lemma scan_no_overlap:
  "sorted_wrt (\<lambda>a b. \<not> overlaps a b) (foldl (scanFieldType content) [] patternRules)"
proof (rule detect_invariant)
  show "sorted_wrt (\<lambda>a b. \<not> overlaps a b) []" by simp
next
  fix ftype patterns pattern m and reg :: "ParserTarget list"
  assume "sorted_wrt (\<lambda>a b. \<not> overlaps a b) reg"
  then show "sorted_wrt (\<lambda>a b. \<not> overlaps a b) (processMatch content ftype reg m)"
    using processMatch_cases [of content ftype reg m]
    by (auto simp: sorted_wrt_append list_ex_iff overlaps_def)
qed

lemma detect_no_overlap_sorted_wrt:
  "sorted_wrt (\<lambda>a b. \<not> overlaps a b) (autoDetectParserTargets content)"
  unfolding autoDetectParserTargets_def
proof (rule sorted_wrt_sort_key [where P = "\<lambda>a b. \<not> overlaps a b"])
  fix a b :: ParserTarget
  assume "\<not> overlaps a b"
  then show "\<not> overlaps b a" by (auto simp: overlaps_def)
next
  show "sorted_wrt (\<lambda>a b. \<not> overlaps a b) (foldl (scanFieldType content) [] patternRules)"
    by (rule scan_no_overlap)
qed

lemma detect_no_overlap:
  assumes "i < length (autoDetectParserTargets content)"
    and "j < length (autoDetectParserTargets content)" and "i \<noteq> j"
  shows "\<not> overlaps (autoDetectParserTargets content ! i) (autoDetectParserTargets content ! j)"
proof (cases "i < j")
  case True
  from sorted_wrt_nth_less [OF detect_no_overlap_sorted_wrt True assms(2)]
  show ?thesis .
next
  case False
  then have "j < i" using assms by simp
  from sorted_wrt_nth_less [OF detect_no_overlap_sorted_wrt this assms(1)]
  show ?thesis by (auto simp: overlaps_def)
qed

lemma detect_confidence:
  assumes "t \<in> set (autoDetectParserTargets content)"
  shows "1 / 2 \<le> confidence t \<and> confidence t \<le> 1"
proof -
  have "\<forall>t\<in>set (foldl (scanFieldType content) [] patternRules). 1 / 2 \<le> confidence t \<and> confidence t \<le> 1"
  proof (rule detect_invariant)
    show "\<forall>t\<in>set []. 1 / 2 \<le> confidence t \<and> confidence t \<le> 1" by simp
  next
    fix ftype patterns pattern m and reg :: "ParserTarget list"
    assume "\<forall>t\<in>set reg. 1 / 2 \<le> confidence t \<and> confidence t \<le> 1"
    then show "\<forall>t\<in>set (processMatch content ftype reg m). 1 / 2 \<le> confidence t \<and> confidence t \<le> 1"
      using processMatch_cases [of content ftype reg m] calculateConfidence_ge_half
        calculateConfidence_le_one
      by auto
  qed
  then show ?thesis using assms by (simp add: autoDetectParserTargets_def)
qed


lemma round_half_even_lower: "r - 1 / 2 \<le> of_int (round_half_even r)"
proof -
  define d where "d = r - of_int \<lfloor>r\<rfloor>"
  have r: "r = of_int \<lfloor>r\<rfloor> + d" by (simp add: d_def)
  have d: "0 \<le> d" "d < 1" unfolding d_def by linarith+
  show ?thesis
  proof (cases "d < 1 / 2")
    case True
    then have "round_half_even r = \<lfloor>r\<rfloor>"
      by (simp add: round_half_even_def Let_def d_def)
    then show ?thesis using r True by linarith
  next
    case False
    show ?thesis
    proof (cases "1 / 2 < d")
      case True
      then have "round_half_even r = \<lfloor>r\<rfloor> + 1"
        using False by (simp add: round_half_even_def Let_def d_def)
      then show ?thesis using r d by simp
    next
      case F: False
      then have h: "d = 1 / 2" using False by simp
      have "\<lfloor>r\<rfloor> \<le> round_half_even r" using round_half_even_cases [of r] by linarith
      then have "rat_of_int \<lfloor>r\<rfloor> \<le> of_int (round_half_even r)" by (simp only: of_int_le_iff)
      then show ?thesis using r h by linarith
    qed
  qed
qed

lemma double_round_lower:
  assumes "0 < y"
  shows "y - y / 2 ^ 53 \<le> double_round y"
proof -
  let ?q = "ulp y"
  have q: "?q * 2 ^ 52 = 2 powi (floor_log2 y)"
    by (simp add: ulp_def power_int_diff)
  have "?q * 2 ^ 52 \<le> y" unfolding q using floor_log2_bounds [OF assms] by simp
  then have qy: "?q / 2 \<le> y / 2 ^ 53" by (simp add: field_simps)
  have "y / ?q - 1 / 2 \<le> of_int (round_half_even (y / ?q))"
    by (rule round_half_even_lower)
  then have "(y / ?q - 1 / 2) * ?q \<le> of_int (round_half_even (y / ?q)) * ?q"
    using less_imp_le [OF ulp_pos [of y]] by (rule mult_right_mono)
  moreover have "(y / ?q - 1 / 2) * ?q = y - ?q / 2"
    using ulp_pos [of y] by (simp add: field_simps)
  ultimately have "y - ?q / 2 \<le> double_round y" using assms by (simp add: double_round_def)
  then show ?thesis using qy by linarith
qed

lemma fadd_two_tenths_ge:
  assumes "0 \<le> c" "c \<le> 1"
  shows "c \<le> fadd c (double_round (2 / 10))"
proof -
  define d where "d = double_round (2 / 10)"
  have d: "1 / 10 \<le> d" "d \<le> 1" unfolding d_def by code_simp+
  have pos: "0 < c + d" using assms d by linarith
  have "(c + d) / 2 ^ 53 \<le> 2 / 2 ^ 53" using assms d by (simp add: divide_right_mono)
  also have "\<dots> \<le> (1::rat) / 10" by simp
  finally have "(c + d) / 2 ^ 53 \<le> d" using d by linarith
  moreover have "c + d - (c + d) / 2 ^ 53 \<le> double_round (c + d)"
    by (rule double_round_lower [OF pos])
  ultimately have "c \<le> double_round (c + d)" by linarith
  then show ?thesis by (simp only: fadd_def d_def)
qed

lemma updateTargetMapping_confidence:
  assumes "\<forall>t\<in>set reg. 1 / 2 \<le> confidence t \<and> confidence t \<le> 1"
  shows "\<forall>t\<in>set (updateTargetMapping index newFieldType reg). 1 / 2 \<le> confidence t \<and> confidence t \<le> 1"
proof (cases "index < 0 \<or> int (length reg) \<le> index")
  case True
  then show ?thesis using assms by (simp add: updateTargetMapping_def)
next
  case False
  define old where "old = reg ! nat index"
  have "nat index < length reg" using False by linarith
  then have "old \<in> set reg" by (simp add: old_def)
  then have old: "1 / 2 \<le> confidence old \<and> confidence old \<le> 1"
    using assms by blast
  have "1 / 2 \<le> fadd (confidence old) (double_round (2 / 10))"
    using old by (intro fadd_ge_half double_round_tenths) simp
  then have new: "1 / 2 \<le> min 1 (fadd (confidence old) (double_round (2 / 10)))" by simp
  define new where "new = old\<lparr>fieldType := Some newFieldType,
        confidence := (if newFieldType \<noteq> ''unmapped''
                       then min 1 (fadd (confidence old) (double_round (2 / 10)))
                       else confidence old)\<rparr>"
  have n: "1 / 2 \<le> confidence new \<and> confidence new \<le> 1"
    using old new by (auto simp: new_def min_def)
  have u: "updateTargetMapping index newFieldType reg = reg[nat index := new]"
    using False by (simp add: updateTargetMapping_def Let_def old_def new_def)
  show ?thesis
  proof
    fix t
    assume "t \<in> set (updateTargetMapping index newFieldType reg)"
    then have "t \<in> insert new (set reg)"
      unfolding u using set_update_subset_insert [of reg "nat index" new] by blast
    then show "1 / 2 \<le> confidence t \<and> confidence t \<le> 1"
      using assms n by blast
  qed
qed

lemma run_confidence:
  "\<forall>t\<in>set (foldl step reg commands). 1 / 2 \<le> confidence t \<and> confidence t \<le> 1"
  if "\<forall>t\<in>set reg. 1 / 2 \<le> confidence t \<and> confidence t \<le> 1"
  using that
proof (induction commands arbitrary: reg)
  case Nil
  then show ?case by simp
next
  case (Cons c cs)
  have "\<forall>t\<in>set (step reg c). 1 / 2 \<le> confidence t \<and> confidence t \<le> 1"
  proof (cases c)
    case (Rescan content)
    then show ?thesis using detect_confidence by simp
  next
    case (Remap index newFieldType)
    then show ?thesis using updateTargetMapping_confidence [OF Cons.prems] by simp
  next
    case ClearAll
    then show ?thesis by (simp add: clearAllTargets_def)
  qed
  from Cons.IH [OF this] show ?case by simp
qed

subsection \<open>No match of the catalog is lost to the threshold\<close>

lemma foldl_set_mono:
  assumes "\<And>a x. set a \<subseteq> set (f a x)"
  shows "set a \<subseteq> set (foldl f a xs)"
proof (induction xs arbitrary: a)
  case Nil
  show ?case by simp
next
  case (Cons y ys)
  have "set a \<subseteq> set (f a y)" by (rule assms)
  also have "\<dots> \<subseteq> set (foldl f (f a y) ys)" by (rule Cons.IH)
  finally show ?case by simp
qed

lemma foldl_hit:
  assumes mono: "\<And>a x. set a \<subseteq> set (f a x)"
    and x: "x \<in> set xs"
    and hit: "\<And>a. Q (set (f a x))"
    and up: "\<And>A B. Q A \<Longrightarrow> A \<subseteq> B \<Longrightarrow> Q B"
  shows "Q (set (foldl f a xs))"
  using x
proof (induction xs arbitrary: a)
  case Nil
  then show ?case by simp
next
  case (Cons y ys)
  show ?case
  proof (cases "x = y")
    case True
    have "Q (set (f a y))" using hit [of a] True by simp
    moreover have "set (f a y) \<subseteq> set (foldl f (f a y) ys)"
      using mono by (rule foldl_set_mono)
    ultimately show ?thesis using up by simp
  next
    case False
    with Cons.prems have "x \<in> set ys" by simp
    from Cons.IH [OF this] show ?thesis by simp
  qed
qed

lemma processMatch_mono: "set reg \<subseteq> set (processMatch content ftype reg m)"
  using processMatch_cases [of content ftype reg m] by auto

lemma scanPattern_mono: "set reg \<subseteq> set (scanPattern content ftype reg pattern)"
  unfolding scanPattern_def by (rule foldl_set_mono) (rule processMatch_mono)

lemma scanFieldType_mono: "set reg \<subseteq> set (scanFieldType content reg rule)"
  unfolding scanFieldType_def by (rule foldl_set_mono) (rule scanPattern_mono)

text \<open>
  A match of the catalog is in the list after the detection pass, with its score, or a
  target of the list overlaps it.
\<close>

lemma detect_complete:
  assumes r: "(ftype, patterns) \<in> set patternRules" and p: "pattern \<in> set patterns"
    and m: "m \<in> set (matchAll content pattern)"
  shows "\<lparr>text = trim (snd m), startPos = int (fst m),
        endPos = int (fst m) + int (length (trim (snd m))),
        confidence = calculateConfidence ftype (trim (snd m)) (int (fst m)) content,
        fieldType = Some ftype,
        context = Some (getTargetContext content (int (fst m))
                    (int (fst m) + int (length (trim (snd m)))))\<rparr>
      \<in> set (autoDetectParserTargets content) \<or>
    list_ex (\<lambda>t. t \<noteq> \<lparr>text = trim (snd m), startPos = int (fst m),
          endPos = int (fst m) + int (length (trim (snd m))),
          confidence = calculateConfidence ftype (trim (snd m)) (int (fst m)) content,
          fieldType = Some ftype,
          context = Some (getTargetContext content (int (fst m))
                      (int (fst m) + int (length (trim (snd m)))))\<rparr> \<and>
        overlaps t \<lparr>text = trim (snd m), startPos = int (fst m),
          endPos = int (fst m) + int (length (trim (snd m)))\<rparr>)
      (autoDetectParserTargets content)"
proof -
  define T where "T = \<lparr>text = trim (snd m), startPos = int (fst m),
        endPos = int (fst m) + int (length (trim (snd m))),
        confidence = calculateConfidence ftype (trim (snd m)) (int (fst m)) content,
        fieldType = Some ftype,
        context = Some (getTargetContext content (int (fst m))
                    (int (fst m) + int (length (trim (snd m)))))\<rparr>"
  define C where "C = \<lparr>text = trim (snd m), startPos = int (fst m),
        endPos = int (fst m) + int (length (trim (snd m)))\<rparr>"
  define Q where "Q A \<longleftrightarrow> T \<in> A \<or> (\<exists>e\<in>A. e \<noteq> T \<and> overlaps e C)" for A
  have up: "\<And>A B. Q A \<Longrightarrow> A \<subseteq> B \<Longrightarrow> Q B" unfolding Q_def by blast
  have h1: "Q (set (processMatch content ftype reg m))" for reg
  proof (cases "list_ex (\<lambda>t. overlaps t C) reg")
    case True
    then have "processMatch content ftype reg m = reg"
      by (simp add: processMatch_def Let_def C_def)
    with True show ?thesis unfolding Q_def by (auto simp: list_ex_iff)
  next
    case False
    then have "processMatch content ftype reg m = reg @ [T]"
      using calculateConfidence_ge_half [of ftype "trim (snd m)" "int (fst m)" content]
      by (simp add: processMatch_def Let_def C_def T_def)
    then show ?thesis unfolding Q_def by simp
  qed
  have h2: "Q (set (scanPattern content ftype reg pattern))" for reg
    unfolding scanPattern_def
  proof (rule foldl_hit [where Q = Q and x = m and f = "processMatch content ftype"])
    show "set a \<subseteq> set (processMatch content ftype a x)" for a x by (rule processMatch_mono)
    show "m \<in> set (matchAll content pattern)" by (rule m)
    show "Q (set (processMatch content ftype a m))" for a by (rule h1)
    show "Q A \<Longrightarrow> A \<subseteq> B \<Longrightarrow> Q B" for A B by (rule up)
  qed
  have h3: "Q (set (scanFieldType content reg (ftype, patterns)))" for reg
    unfolding scanFieldType_def fst_conv snd_conv
  proof (rule foldl_hit [where Q = Q and x = pattern and f = "scanPattern content ftype"])
    show "set a \<subseteq> set (scanPattern content ftype a x)" for a x by (rule scanPattern_mono)
    show "pattern \<in> set patterns" by (rule p)
    show "Q (set (scanPattern content ftype a pattern))" for a by (rule h2)
    show "Q A \<Longrightarrow> A \<subseteq> B \<Longrightarrow> Q B" for A B by (rule up)
  qed
  have "Q (set (foldl (scanFieldType content) [] patternRules))"
  proof (rule foldl_hit [where Q = Q and x = "(ftype, patterns)" and f = "scanFieldType content"])
    show "set a \<subseteq> set (scanFieldType content a x)" for a x by (rule scanFieldType_mono)
    show "(ftype, patterns) \<in> set patternRules" by (rule r)
    show "Q (set (scanFieldType content a (ftype, patterns)))" for a by (rule h3)
    show "Q A \<Longrightarrow> A \<subseteq> B \<Longrightarrow> Q B" for A B by (rule up)
  qed
  then have "Q (set (autoDetectParserTargets content))"
    by (simp add: autoDetectParserTargets_def)
  then show ?thesis unfolding Q_def T_def C_def by (simp add: list_ex_iff)
qed

section \<open>What a match of a catalog pattern looks like\<close>

lemma first_some_SomeD: "first_some f xs = Some y \<Longrightarrow> \<exists>x\<in>set xs. f x = Some y"
  by (induction xs) (auto split: option.splits)

lemma match_here_Rep_end:
  "match_here [Rep cs 0 None] prev rest = Some (length (takeWhile (in_charset cs) rest))"
  by (simp add: Let_def)

lemma match_here_ConsD:
  assumes "match_here (a # re) prev rest = Some m"
  shows "\<exists>k\<in>set (choices a prev rest). \<exists>n.
           match_here re (advance prev rest k) (drop k rest) = Some n \<and> m = k + n"
proof -
  from assms have "first_some
      (\<lambda>k. map_option (\<lambda>m. k + m) (match_here re (advance prev rest k) (drop k rest)))
      (choices a prev rest) = Some m"
    by (simp only: match_here.simps)
  from first_some_SomeD [OF this] show ?thesis by auto
qed

lemma choices_WordB: "k \<in> set (choices WordB prev rest) \<Longrightarrow> k = 0"
  by (simp split: if_splits)

lemma choices_Alt: "k \<in> set (choices (Alt ks) prev rest) \<Longrightarrow> \<exists>s\<in>set ks. prefix s rest \<and> k = length s"
  by auto

lemma match_here_keyword_run:
  assumes "match_here [WordB, Alt ks, WordB, Rep cs 0 None] prev rest = Some m"
  shows "\<exists>k\<in>set ks. prefix k rest \<and>
           m = length k + length (takeWhile (in_charset cs) (drop (length k) rest))"
proof -
  from match_here_ConsD [OF assms] obtain k1 n1 where
    k1: "k1 \<in> set (choices WordB prev rest)"
    and m1: "match_here [Alt ks, WordB, Rep cs 0 None] (advance prev rest k1) (drop k1 rest) = Some n1"
    and e1: "m = k1 + n1"
    by blast
  have z1: "k1 = 0" using k1 by (rule choices_WordB)
  let ?p1 = "advance prev rest k1"
  have r1: "drop k1 rest = rest" using z1 by simp
  from match_here_ConsD [OF m1 [unfolded r1]] obtain k2 n2 where
    k2: "k2 \<in> set (choices (Alt ks) ?p1 rest)"
    and m2: "match_here [WordB, Rep cs 0 None] (advance ?p1 rest k2) (drop k2 rest) = Some n2"
    and e2: "n1 = k2 + n2"
    by blast
  from choices_Alt [OF k2] obtain k where k: "k \<in> set ks" "prefix k rest" "k2 = length k"
    by blast
  let ?p2 = "advance ?p1 rest k2"
  from match_here_ConsD [OF m2] obtain k3 n3 where
    k3: "k3 \<in> set (choices WordB ?p2 (drop k2 rest))"
    and m3: "match_here [Rep cs 0 None] (advance ?p2 (drop k2 rest) k3) (drop k3 (drop k2 rest)) = Some n3"
    and e3: "n2 = k3 + n3"
    by blast
  have z3: "k3 = 0" using k3 by (rule choices_WordB)
  have "n3 = length (takeWhile (in_charset cs) (drop k2 rest))"
    using m3 unfolding z3 match_here_Rep_end by simp
  then have "m = length k + length (takeWhile (in_charset cs) (drop (length k) rest))"
    using e1 e2 e3 z1 z3 k by simp
  with k show ?thesis by blast
qed

lemma search_match:
  "search re prev rest off = Some (j, m) \<Longrightarrow>
     off \<le> j \<and> j - off \<le> length rest \<and> (\<exists>p. match_here re p (drop (j - off) rest) = Some m)"
proof (induction rest arbitrary: prev off)
  case Nil
  then show ?case by auto
next
  case (Cons c cs)
  show ?case
  proof (cases "match_here re prev (c # cs)")
    case None
    with Cons.prems have "search re (Some c) cs (Suc off) = Some (j, m)" by simp
    from Cons.IH [OF this] obtain p where
      "Suc off \<le> j" "j - Suc off \<le> length cs" "match_here re p (drop (j - Suc off) cs) = Some m"
      by auto
    moreover from this have "drop (j - off) (c # cs) = drop (j - Suc off) cs"
      by (simp add: Suc_diff_le drop_Cons')
    ultimately show ?thesis by auto
  next
    case (Some a)
    with Cons.prems show ?thesis by auto
  qed
qed

lemma matchAll_from_match:
  "(j, s) \<in> set (matchAll_from re content i) \<Longrightarrow>
     j \<le> length content \<and> (\<exists>p m. match_here re p (drop j content) = Some m \<and> s = take m (drop j content))"
proof (induction re content i rule: matchAll_from.induct)
  case (1 re content i)
  show ?case
  proof (cases "length content < i")
    case True
    with "1.prems" show ?thesis by (subst (asm) matchAll_from.simps) simp
  next
    case False
    show ?thesis
    proof (cases "search re (if i = 0 then None else Some (content ! (i - 1))) (drop i content) i")
      case None
      with "1.prems" False show ?thesis by (subst (asm) matchAll_from.simps) simp
    next
      case (Some r)
      obtain j' m' where r: "r = (j', m')" by (cases r)
      from search_match [OF Some [unfolded r]] obtain p where
        s: "i \<le> j'" "j' - i \<le> length (drop i content)"
           "match_here re p (drop (j' - i) (drop i content)) = Some m'"
        by auto
      from s have d: "drop (j' - i) (drop i content) = drop j' content" by simp
      from "1.prems" False Some r
      have "(j, s) = (j', take m' (drop j' content)) \<or>
            (j, s) \<in> set (matchAll_from re content (if m' = 0 then j' + 1 else j' + m'))"
        by (subst (asm) matchAll_from.simps) simp
      then show ?thesis
      proof
        assume "(j, s) = (j', take m' (drop j' content))"
        then show ?thesis using s False d by auto
      next
        assume "(j, s) \<in> set (matchAll_from re content (if m' = 0 then j' + 1 else j' + m'))"
        then show ?thesis using "1.IH" [OF False Some [unfolded r] refl] by simp
      qed
    qed
  qed
qed

lemma detect_provenance:
  assumes "t \<in> set (autoDetectParserTargets content)"
  shows "\<exists>ftype patterns pattern j s.
           (ftype, patterns) \<in> set patternRules \<and> pattern \<in> set patterns \<and>
           (j, s) \<in> set (matchAll content pattern) \<and>
           text t = trim s \<and> startPos t = int j \<and> endPos t = int j + int (length (trim s)) \<and>
           fieldType t = Some ftype"
proof -
  define Q where "Q = (\<lambda>t::ParserTarget. \<exists>ftype patterns pattern j s.
           (ftype, patterns) \<in> set patternRules \<and> pattern \<in> set patterns \<and>
           (j, s) \<in> set (matchAll content pattern) \<and>
           text t = trim s \<and> startPos t = int j \<and> endPos t = int j + int (length (trim s)) \<and>
           fieldType t = Some ftype)"
  have "\<forall>t\<in>set (foldl (scanFieldType content) [] patternRules). Q t"
  proof (rule detect_invariant)
    show "\<forall>t\<in>set []. Q t" by simp
  next
    fix ftype patterns pattern m and reg :: "ParserTarget list"
    assume r: "(ftype, patterns) \<in> set patternRules" "pattern \<in> set patterns"
      "m \<in> set (matchAll content pattern)" and i: "\<forall>t\<in>set reg. Q t"
    obtain j s where m: "m = (j, s)" by (cases m)
    have "Q \<lparr>text = trim (snd m), startPos = int (fst m),
        endPos = int (fst m) + int (length (trim (snd m))),
        confidence = calculateConfidence ftype (trim (snd m)) (int (fst m)) content,
        fieldType = Some ftype,
        context = Some (getTargetContext content (int (fst m))
                    (int (fst m) + int (length (trim (snd m)))))\<rparr>"
      using r unfolding m Q_def by (simp del: set_simps) blast
    then show "\<forall>t\<in>set (processMatch content ftype reg m). Q t"
      using processMatch_cases [of content ftype reg m] i by auto
  qed
  then show ?thesis using assms by (simp add: autoDetectParserTargets_def Q_def)
qed

lemma set_trim: "set (trim s) \<subseteq> set s"
proof -
  have "set (trim s) \<subseteq> set (rev (dropWhile is_space s))"
    unfolding trim_def set_rev by (auto dest: set_dropWhileD)
  also have "\<dots> \<subseteq> set s" by (auto dest: set_dropWhileD)
  finally show ?thesis .
qed

lemma prefix_trim:
  assumes "prefix k s" "k \<noteq> []" "\<not> is_space (hd k)" "\<not> is_space (last k)"
  shows "prefix k (trim s)"
proof -
  from assms(1) obtain r where s: "s = k @ r" by (auto simp: prefix_def)
  have d: "dropWhile is_space s = s"
    using assms(2,3) unfolding s by (cases k) auto
  have rk: "dropWhile is_space (rev k) = rev k"
    using assms(2,4) by (cases "rev k") (auto simp: last_rev [symmetric] simp del: last_rev)
  have "\<exists>x. dropWhile is_space (rev r @ rev k) = x @ rev k"
  proof (cases "\<forall>c\<in>set (rev r). is_space c")
    case True
    then have "dropWhile is_space (rev r @ rev k) = dropWhile is_space (rev k)"
      by (intro dropWhile_append2) auto
    then show ?thesis using rk by auto
  next
    case False
    then obtain c where "c \<in> set (rev r)" "\<not> is_space c" by blast
    then have "dropWhile is_space (rev r @ rev k) = dropWhile is_space (rev r) @ rev k"
      by (rule dropWhile_append1)
    then show ?thesis by blast
  qed
  then obtain x where "dropWhile is_space (rev r @ rev k) = x @ rev k" by blast
  then have "trim s = k @ rev x" unfolding trim_def d by (simp add: s)
  then show ?thesis by simp
qed

lemma job_name_patterns:
  assumes "(''job_name'', patterns) \<in> set patternRules" "pattern \<in> set patterns"
  shows "pattern = [WordB, Alt [''Service Call'', ''Alarm''], WordB, Rep not_terminator 0 None] \<or>
         pattern = [WordB, Alt [''Device Offline'', ''Line Error'', ''Alarm Active''], WordB,
                    Rep not_terminator 0 None]"
  using assms by (auto simp: patternRules_def)

lemma keyword_run_facts:
  assumes p: "prefix k rest"
    and m: "m = length k + length (takeWhile P (drop (length k) rest))"
  shows "take m rest = k @ takeWhile P (drop (length k) rest)"
    and "m \<le> length rest"
    and "m < length rest \<Longrightarrow> \<not> P (rest ! m)"
proof -
  from p obtain r where rest: "rest = k @ r" by (auto simp: prefix_def)
  have r: "drop (length k) rest = r" by (simp add: rest)
  show "take m rest = k @ takeWhile P (drop (length k) rest)"
    unfolding m r by (simp add: rest) (metis append_eq_conv_conj takeWhile_dropWhile_id)
  show "m \<le> length rest" unfolding m r by (simp add: rest length_takeWhile_le)
  assume "m < length rest"
  then have "length (takeWhile P r) < length r" unfolding m r by (simp add: rest)
  from nth_length_takeWhile [OF this] show "\<not> P (rest ! m)"
    unfolding m r by (simp add: rest nth_append)
qed

lemma keyword_target:
  assumes mh: "match_here [WordB, Alt ks, WordB, Rep cs 0 None] p (drop j content) = Some m"
    and j: "j \<le> length content"
    and ks: "\<forall>k\<in>set ks. k \<noteq> [] \<and> \<not> is_space (hd k) \<and> \<not> is_space (last k) \<and>
               (\<forall>c\<in>set k. in_charset cs c)"
  shows "\<exists>k\<in>set ks. prefix k (trim (take m (drop j content)))"
    and "\<forall>c\<in>set (trim (take m (drop j content))). in_charset cs c"
    and "j + m \<le> length content"
    and "j + m < length content \<Longrightarrow> \<not> in_charset cs (content ! (j + m))"
proof -
  let ?rest = "drop j content"
  from match_here_keyword_run [OF mh] obtain k where
    k: "k \<in> set ks" "prefix k ?rest"
    and m: "m = length k + length (takeWhile (in_charset cs) (drop (length k) ?rest))"
    by blast
  note f = keyword_run_facts [OF k(2) m]
  have "prefix k (take m ?rest)" unfolding f(1) by simp
  then have "prefix k (trim (take m ?rest))"
    using ks k(1) by (intro prefix_trim) auto
  then show "\<exists>k\<in>set ks. prefix k (trim (take m (drop j content)))" using k(1) by blast
  have "\<forall>c\<in>set (take m ?rest). in_charset cs c"
    unfolding f(1) using ks k(1) by (auto dest: set_takeWhileD)
  then show "\<forall>c\<in>set (trim (take m (drop j content))). in_charset cs c"
    using set_trim [of "take m ?rest"] by blast
  show "j + m \<le> length content" using f(2) j by simp
  assume "j + m < length content"
  then have "m < length ?rest" by simp
  from f(3) [OF this] show "\<not> in_charset cs (content ! (j + m))" using j by simp
qed

lemma job_name_keywords:
  "\<forall>k\<in>set [''Service Call'', ''Alarm'']. k \<noteq> [] \<and> \<not> is_space (hd k) \<and> \<not> is_space (last k) \<and>
               (\<forall>c\<in>set k. in_charset not_terminator c)"
  "\<forall>k\<in>set [''Device Offline'', ''Line Error'', ''Alarm Active''].
      k \<noteq> [] \<and> \<not> is_space (hd k) \<and> \<not> is_space (last k) \<and>
      (\<forall>c\<in>set k. in_charset not_terminator c)"
  by (simp_all add: is_space_def code_def)

section \<open>The generated methods\<close>

subsection \<open>What the operations return\<close>

lemma match_here_Lit:
  "match_here [Lit lit] prev rest = (if prefix lit rest then Some (length lit) else None)"
  by simp


lemma search_Lit_none:
  "\<not> includes' rest lit \<Longrightarrow> search [Lit lit] prev rest off = None"
  by (induction rest arbitrary: prev off) (simp_all del: match_here.simps add: match_here_Lit)














subsection \<open>Reading back what a generator writes\<close>

lemma strip_append: "strip p (p @ r) = Some r"
  by (induction p) simp_all













text \<open>
  A selection with a slash: the method holds two regular expressions and returns what
  the first matches. A selection with a backslash: in the string literals of the method
  \<^verbatim>\<open>\t\<close> is a tab, so the method looks for another text than the selection and finds
  nothing.
\<close>

lemma slash_selection_example:
  "runMethod (generateRegexRule toUpperCase_ascii ''pair'' ''a/,/b'' \<lparr>start = 2, end = 7\<rparr>)
     ''x a/,/b y'' = Some ''a''"
  by code_simp

lemma backslash_selection_example:
  "includes' (''see C:'' @ [backslash] @ ''temp here'') (''C:'' @ [backslash] @ ''temp'') \<and>
   readMethod (generateCSSRule toUpperCase_ascii ''path'' (''C:'' @ [backslash] @ ''temp'')
       \<lparr>start = 4, end = 11\<rparr>) =
     Some (CSSMethod (''C:'' @ [CHR 0x09] @ ''emp'') (''C:'' @ [CHR 0x09] @ ''emp'')
       (''C:'' @ [CHR 0x09] @ ''emp'')) \<and>
   runMethod (generateCSSRule toUpperCase_ascii ''path'' (''C:'' @ [backslash] @ ''temp'')
       \<lparr>start = 4, end = 11\<rparr>) (''see C:'' @ [backslash] @ ''temp here'') = Some [] \<and>
   runMethod (generateXPathRule toUpperCase_ascii ''path'' (''C:'' @ [backslash] @ ''temp'')
       \<lparr>start = 4, end = 11\<rparr>) (''see C:'' @ [backslash] @ ''temp here'') = Some []"
  by code_simp

section \<open>The selection of an encoding and the dump\<close>

lemma double_round_zero: "double_round 0 = 0"
  by (simp add: double_round_def)

lemma looksValid_more_than_30:
  assumes "looksValid decoded"
  shows "3 * length decoded < 10 * length (filter (\<lambda>c. \<not> is_control c) decoded)"
proof (rule ccontr)
  let ?p = "length (filter (\<lambda>c. \<not> is_control c) decoded)"
  let ?n = "length decoded"
  assume "\<not> 3 * ?n < 10 * ?p"
  then have le: "10 * ?p \<le> 3 * ?n" by simp
  from assms have n: "decoded \<noteq> []"
    and gt: "double_round (3 / 10) < double_round (of_nat ?p / of_nat ?n)"
    by (simp_all add: looksValid_def Let_def fdiv_def)
  have npos: "0 < (of_nat ?n :: rat)" using n by simp
  have "rat_of_nat (10 * ?p) \<le> rat_of_nat (3 * ?n)" using le by (simp only: of_nat_le_iff)
  then have q: "(of_nat ?p :: rat) / of_nat ?n \<le> 3 / 10" using npos by (simp add: field_simps)
  have "double_round (of_nat ?p / of_nat ?n) \<le> double_round (3 / 10)"
  proof (cases "?p = 0")
    case True
    have "0 \<le> double_round (3 / 10)" by code_simp
    then show ?thesis using True by (simp add: double_round_zero)
  next
    case False
    then have "0 < (of_nat ?p :: rat) / of_nat ?n" using npos by simp
    then show ?thesis using q by (rule double_round_mono_pos)
  qed
  with gt show False by simp
qed

lemma looksValid_if_more_than_30:
  assumes "3 * length decoded < 10 * length (filter (\<lambda>c. \<not> is_control c) decoded)"
    and "length decoded \<le> 2 ^ 52"
  shows "looksValid decoded"
proof -
  let ?p = "length (filter (\<lambda>c. \<not> is_control c) decoded)"
  let ?n = "length decoded"
  have n: "decoded \<noteq> []" using assms(1) by auto
  then have npos: "0 < (of_nat ?n :: rat)" by simp
  have "3 * ?n + 1 \<le> 10 * ?p" using assms(1) by simp
  then have "rat_of_nat (3 * ?n + 1) \<le> rat_of_nat (10 * ?p)" by (simp only: of_nat_le_iff)
  then have "(3 * rat_of_nat ?n + 1) / (10 * of_nat ?n) \<le> (10 * of_nat ?p) / (10 * of_nat ?n)"
    using npos by (intro divide_right_mono) simp_all
  moreover have "(3 * rat_of_nat ?n + 1) / (10 * of_nat ?n) = 3 / 10 + 1 / (10 * of_nat ?n)"
    using npos by (simp add: add_divide_distrib)
  moreover have "(10 * rat_of_nat ?p) / (10 * of_nat ?n) = of_nat ?p / of_nat ?n" by simp
  ultimately have 1: "3 / 10 + 1 / (10 * of_nat ?n) \<le> (of_nat ?p :: rat) / of_nat ?n"
    by simp
  have "rat_of_nat ?n \<le> rat_of_nat (2 ^ 52)" using assms(2) by (simp only: of_nat_le_iff)
  then have "(of_nat ?n :: rat) \<le> 2 ^ 52" by simp
  then have "1 / (10 * 2 ^ 52) \<le> 1 / (10 * (of_nat ?n :: rat))"
    using npos by (simp add: field_simps)
  with 1 have 2: "3 / 10 + 1 / (10 * 2 ^ 52) \<le> (of_nat ?p :: rat) / of_nat ?n" by linarith
  have "(0::rat) < 3 / 10 + 1 / (10 * 2 ^ 52)" by simp
  from double_round_mono_pos [OF this 2]
  have "double_round (3 / 10 + 1 / (10 * 2 ^ 52)) \<le> double_round (of_nat ?p / of_nat ?n)" .
  moreover have "double_round (3 / 10) < double_round (3 / 10 + 1 / (10 * 2 ^ 52))"
    by code_simp
  ultimately show ?thesis using n by (simp add: looksValid_def Let_def fdiv_def)
qed

text \<open>An encoding is passed over when its decoder throws or its text does not look valid.\<close>

lemma tryEncodings_first:
  assumes "i < length encs"
    and "\<forall>j<i. case decode (encs ! j) bytes of None \<Rightarrow> True | Some d \<Rightarrow> \<not> looksValid d"
    and "decode (encs ! i) bytes = Some decoded" and "looksValid decoded"
  shows "tryEncodings decode bytes encs = Some (stripControls decoded)"
  using assms
proof (induction encs arbitrary: i)
  case Nil
  then show ?case by simp
next
  case (Cons e es)
  show ?case
  proof (cases i)
    case 0
    with Cons.prems show ?thesis by simp
  next
    case (Suc k)
    from Cons.prems(2) Suc
    have h: "case decode e bytes of None \<Rightarrow> True | Some d \<Rightarrow> \<not> looksValid d"
      by (auto dest: spec [of _ 0])
    have r: "\<forall>j<k. case decode (es ! j) bytes of None \<Rightarrow> True | Some d \<Rightarrow> \<not> looksValid d"
    proof (intro allI impI)
      fix j assume "j < k"
      then have "Suc j < i" using Suc by simp
      with Cons.prems(2) show "case decode (es ! j) bytes of None \<Rightarrow> True | Some d \<Rightarrow> \<not> looksValid d"
        by (auto dest: spec [of _ "Suc j"])
    qed
    have "tryEncodings decode bytes es = Some (stripControls decoded)"
      using Cons.IH [of k] Cons.prems Suc r by simp
    then show ?thesis using h by (simp split: option.splits)
  qed
qed

lemma tryEncodings_none:
  assumes "\<forall>j<length encs. case decode (encs ! j) bytes of None \<Rightarrow> True | Some d \<Rightarrow> \<not> looksValid d"
  shows "tryEncodings decode bytes encs = None"
  using assms
proof (induction encs)
  case Nil
  then show ?case by simp
next
  case (Cons e es)
  from Cons.prems have h: "case decode e bytes of None \<Rightarrow> True | Some d \<Rightarrow> \<not> looksValid d"
    by (auto dest: spec [of _ 0])
  have "\<forall>j<length es. case decode (es ! j) bytes of None \<Rightarrow> True | Some d \<Rightarrow> \<not> looksValid d"
  proof (intro allI impI)
    fix j assume "j < length es"
    then have "Suc j < length (e # es)" by simp
    with Cons.prems show "case decode (es ! j) bytes of None \<Rightarrow> True | Some d \<Rightarrow> \<not> looksValid d"
      by (auto dest: spec [of _ "Suc j"])
  qed
  from Cons.IH [OF this] show ?case using h by (cases "decode e bytes") simp_all
qed

lemma stripControls_filter:
  "stripControls s = filter (\<lambda>c. c \<notin> {0x00..0x08} \<union> {0x0B, 0x0C} \<union> {0x0E..0x1F} \<union> {0x7F}) s"
  unfolding stripControls_def filter_filter
  by (rule filter_cong) (auto simp: is_stripped_control_def)

lemma length_hexLines: "length (hexLines offset view) = (length view + 15) div 16"
proof (induction offset view rule: hexLines.induct)
  case (1 offset view)
  show ?case
  proof (cases "view = []")
    case True
    then show ?thesis by (subst hexLines.simps) simp
  next
    case False
    then have "length (hexLines offset view) = Suc ((length (drop 16 view) + 15) div 16)"
      using "1.IH" by (subst hexLines.simps) simp
    also have "\<dots> = Suc ((length view - 16 + 15) div 16)" by simp
    also have "\<dots> = (length view + 15) div 16"
    proof -
      have pos: "0 < length view" using False by (cases view) simp_all
      then have "16 \<le> length view + 15" by linarith
      then have g: "(length view + 15) div 16 = Suc ((length view + 15 - 16) div 16)"
        by (simp add: le_div_geq)
      show ?thesis
      proof (cases "16 \<le> length view")
        case True
        then have "length view - 16 + 15 = length view + 15 - 16" by simp
        then show ?thesis using g by simp
      next
        case F: False
        then have "(length view - 16 + 15) div 16 = 0" "(length view + 15 - 16) div 16 = 0"
          using pos by simp_all
        then show ?thesis using g by simp
      qed
    qed
    finally show ?thesis .
  qed
qed

lemma nth_hexLines:
  "k < length (hexLines offset view) \<Longrightarrow>
     hexLines offset view ! k = hexLine (offset + 16 * k) (take 16 (drop (16 * k) view))"
proof (induction offset view arbitrary: k rule: hexLines.induct)
  case (1 offset view)
  show ?case
  proof (cases "view = []")
    case True
    with "1.prems" show ?thesis by (simp add: length_hexLines)
  next
    case False
    then have e: "hexLines offset view =
        hexLine offset (take 16 view) # hexLines (offset + 16) (drop 16 view)"
      by (subst hexLines.simps) simp
    show ?thesis
    proof (cases k)
      case 0
      show ?thesis unfolding 0 e by simp
    next
      case (Suc j)
      with "1.prems" have "j < length (hexLines (offset + 16) (drop 16 view))"
        unfolding e by simp
      from "1.IH" [OF False this] show ?thesis
        unfolding Suc e by (simp add: add.assoc add.commute [of 16])
    qed
  qed
qed

lemma code_hex_digit: "d < 16 \<Longrightarrow> 32 \<le> code (hex_digit d) \<and> code (hex_digit d) \<le> 126"
  by (auto simp: hex_digit_def code_def)

lemma hex_digits_printable:
  "\<forall>c\<in>set (hex_digits fuel n). 32 \<le> code c \<and> code c \<le> 126"
proof (induction fuel arbitrary: n)
  case 0
  show ?case by simp
next
  case (Suc fuel)
  have "n mod 16 < 16" by simp
  then show ?case using Suc code_hex_digit by auto
qed

lemma digits_printable:
  "\<forall>c\<in>set (digits fuel n). 32 \<le> code c \<and> code c \<le> 126"
proof (induction fuel arbitrary: n)
  case 0
  show ?case by simp
next
  case (Suc fuel)
  have "n mod 10 < 10" by simp
  then have "32 \<le> code (char_of (48 + n mod 10)) \<and> code (char_of (48 + n mod 10)) \<le> 126"
    by (simp add: code_def)
  moreover have "n < 10 \<Longrightarrow> 32 \<le> code (char_of (48 + n)) \<and> code (char_of (48 + n)) \<le> 126"
    by (simp add: code_def)
  ultimately show ?case using Suc by auto
qed

lemma set_join: "set (join sep ps) \<subseteq> set sep \<union> (\<Union>p\<in>set ps. set p)"
  by (induction sep ps rule: join.induct) auto

lemma padStart_printable:
  assumes "\<forall>c\<in>set s. 32 \<le> code c \<and> code c \<le> 126"
  shows "\<forall>c\<in>set (padStart width (CHR ''0'') s). 32 \<le> code c \<and> code c \<le> 126"
  using assms by (auto simp: padStart_def code_def)

lemma hexLine_printable: "\<forall>c\<in>set (hexLine offset chunk). 32 \<le> code c \<and> code c \<le> 126"
proof
  fix c assume c: "c \<in> set (hexLine offset chunk)"
  let ?P = "\<lambda>c. 32 \<le> code c \<and> code c \<le> 126"
  let ?hexRow = "map (\<lambda>i. if i < length chunk
                              then padStart 2 (CHR ''0'') (toString16 (unat (chunk ! i)))
                              else ''  '') [0 ..< 16]"
  let ?charRow = "map (\<lambda>i. if i < length chunk
                               then (if 32 \<le> unat (chunk ! i) \<and> unat (chunk ! i) \<le> 126
                                     then char_of (unat (chunk ! i)) else CHR ''.'')
                               else CHR '' '') [0 ..< 16]"
  have pad: "\<forall>c\<in>set (padStart w (CHR ''0'') (toString16 n)). ?P c" for w n
    by (rule padStart_printable) (simp add: toString16_def hex_digits_printable del: hex_digits.simps)
  have row: "\<forall>c\<in>set p. ?P c" if "p \<in> set ?hexRow" for p
  proof -
    from that obtain i where
      "p = (if i < length chunk then padStart 2 (CHR ''0'') (toString16 (unat (chunk ! i))) else ''  '')"
      unfolding set_map by blast
    then show ?thesis using pad [of 2 "unat (chunk ! i)"]
      by (cases "i < length chunk") (simp_all add: code_def)
  qed
  have 1: "?P x" if "x \<in> set (join '' '' ?hexRow)" for x
  proof -
    from that set_join [of "'' ''" ?hexRow]
    have "x \<in> set '' '' \<or> (\<exists>p\<in>set ?hexRow. x \<in> set p)" by blast
    then show ?thesis using row by (auto simp: code_def)
  qed
  have 2: "?P x" if "x \<in> set ?charRow" for x
  proof -
    from that obtain i where
      "x = (if i < length chunk
            then (if 32 \<le> unat (chunk ! i) \<and> unat (chunk ! i) \<le> 126
                  then char_of (unat (chunk ! i)) else CHR ''.'')
            else CHR '' '')"
      unfolding set_map by blast
    then show ?thesis by (auto simp: code_def)
  qed
  have 3: "?P x" if "x \<in> set ('': '' @ ''  |'' @ ''|'')" for x
    using that by (auto simp: code_def)
  have "hexLine offset chunk =
      padStart 8 (CHR ''0'') (toString16 offset) @ '': '' @ join '' '' ?hexRow @
      ''  |'' @ ?charRow @ ''|''"
    unfolding hexLine_def Let_def by (rule refl)
  then have "c \<in> set (padStart 8 (CHR ''0'') (toString16 offset)) \<or> c \<in> set (join '' '' ?hexRow) \<or>
      c \<in> set ?charRow \<or> c \<in> set ('': '' @ ''  |'' @ ''|'')"
    using c by (simp only: set_append Un_iff) blast
  then show "?P c" using pad [of 8 offset] 1 2 3 by blast
qed

lemma hexLines_printable:
  "\<forall>l\<in>set (hexLines offset view). \<forall>c\<in>set l. 32 \<le> code c \<and> code c \<le> 126"
proof (intro ballI)
  fix l c assume l: "l \<in> set (hexLines offset view)" and c: "c \<in> set l"
  from l obtain k where "k < length (hexLines offset view)" "hexLines offset view ! k = l"
    by (auto simp: in_set_conv_nth)
  then have "l = hexLine (offset + 16 * k) (take 16 (drop (16 * k) view))"
    using nth_hexLines by metis
  then show "32 \<le> code c \<and> code c \<le> 126" using hexLine_printable c by blast
qed

lemma hex_dump_units:
  assumes "u \<in> set (convertContentToHex encode (Buffer bytes) filename)"
  shows "u \<in> set filename \<or> (32 \<le> u \<and> u \<le> 126) \<or> u = 10"
proof -
  have fixed: "\<forall>u\<in>set (units s). 32 \<le> u \<and> u \<le> 126"
    if "\<forall>c\<in>set s. 32 \<le> code c \<and> code c \<le> 126" for s
    using that by (auto simp: units_def code_def)
  have a: "\<forall>u\<in>set (units ''Hexadecimal dump of ''). 32 \<le> u \<and> u \<le> 126"
    by (rule fixed) (simp add: code_def)
  have b: "\<forall>u\<in>set (units '' (''). 32 \<le> u \<and> u \<le> 126"
    by (rule fixed) (simp add: code_def)
  have c: "\<forall>u\<in>set (units '' bytes):''). 32 \<le> u \<and> u \<le> 126"
    by (rule fixed) (simp add: code_def)
  have d: "\<forall>u\<in>set (units (show_nat (length bytes))). 32 \<le> u \<and> u \<le> 126"
    by (rule fixed) (simp add: show_nat_def digits_printable del: digits.simps)
  have e: "\<forall>u\<in>set (units (join [CHR 0x0A] (hexLines 0 bytes))). (32 \<le> u \<and> u \<le> 126) \<or> u = 10"
  proof
    fix u assume "u \<in> set (units (join [CHR 0x0A] (hexLines 0 bytes)))"
    then obtain c where c: "c \<in> set (join [CHR 0x0A] (hexLines 0 bytes))" and u: "u = of_char c"
      unfolding units_def set_map by blast
    from c set_join [of "[CHR 0x0A]" "hexLines 0 bytes"]
    have "c \<in> set [CHR 0x0A] \<or> (\<exists>l\<in>set (hexLines 0 bytes). c \<in> set l)" by blast
    then show "(32 \<le> u \<and> u \<le> 126) \<or> u = 10"
    proof
      assume "c \<in> set [CHR 0x0A]"
      then show ?thesis unfolding u by simp
    next
      assume "\<exists>l\<in>set (hexLines 0 bytes). c \<in> set l"
      then have "32 \<le> code c \<and> code c \<le> 126" using hexLines_printable [of 0 bytes] by blast
      then show ?thesis unfolding u code_def by simp
    qed
  qed
  have eq: "convertContentToHex encode (Buffer bytes) filename =
      units ''Hexadecimal dump of '' @ filename @ units '' ('' @
      units (show_nat (length bytes)) @ units '' bytes):'' @ [0x0A, 0x0A] @
      units (join [CHR 0x0A] (hexLines 0 bytes))"
    unfolding convertContentToHex_def by (simp only: content.case option.case)
  from assms have "u \<in> set (units ''Hexadecimal dump of '') \<or> u \<in> set filename \<or>
      u \<in> set (units '' ('') \<or> u \<in> set (units (show_nat (length bytes))) \<or>
      u \<in> set (units '' bytes):'') \<or> u \<in> set [0x0A, 0x0A] \<or>
      u \<in> set (units (join [CHR 0x0A] (hexLines 0 bytes)))"
    unfolding eq by (simp only: set_append Un_iff)
  then consider "u \<in> set (units ''Hexadecimal dump of '')" | "u \<in> set filename"
    | "u \<in> set (units '' ('')" | "u \<in> set (units (show_nat (length bytes)))"
    | "u \<in> set (units '' bytes):'')" | "u \<in> set [0x0A, 0x0A]"
    | "u \<in> set (units (join [CHR 0x0A] (hexLines 0 bytes)))"
    by blast
  then show ?thesis
  proof cases
    case 1 with a show ?thesis by (rule_tac disjI2, rule_tac disjI1) (rule bspec)
  next
    case 2 then show ?thesis by (rule disjI1)
  next
    case 3 with b show ?thesis by (rule_tac disjI2, rule_tac disjI1) (rule bspec)
  next
    case 4 with d show ?thesis by (rule_tac disjI2, rule_tac disjI1) (rule bspec)
  next
    case 5 with c show ?thesis by (rule_tac disjI2, rule_tac disjI1) (rule bspec)
  next
    case 6 then have "u = 10" by simp
    then show ?thesis by (intro disjI2)
  next
    case 7 with e have "(32 \<le> u \<and> u \<le> 126) \<or> u = 10" by (rule bspec)
    then show ?thesis by (rule disjI2)
  qed
qed

section \<open>Properties\<close>

subsection \<open>Containment of a position\<close>

text \<open>
  C10. \<open>contains\<close> treats both bounds inclusively: a position is contained exactly
  when it lies between \<open>startPos\<close> and \<open>endPos\<close>, both included; in particular the end
  offset, which the half-open span excludes, is reported as contained (for every target
  whose start is not beyond its end).
\<close>

theorem contains_inclusive:
  "contains t p = (startPos t \<le> p \<and> p \<le> endPos t) \<and>
   contains t (endPos t) = (startPos t \<le> endPos t)"
  by (simp add: contains_def)

subsection \<open>Confidence stays between 0.5 and 1\<close>

text \<open>
  C4. The scorer returns a value between 0.5 and 1.0 on every input, and every target
  of the list has a confidence between 0.5 and 1.0 after any sequence of detection
  passes, field reassignments and clearings, starting from the empty list.
\<close>

theorem confidence_bounds:
  "(1 / 2 \<le> calculateConfidence ftype txt position content \<and>
    calculateConfidence ftype txt position content \<le> 1) \<and>
   (\<forall>t\<in>set (run commands). 1 / 2 \<le> confidence t \<and> confidence t \<le> 1)"
proof
  show "1 / 2 \<le> calculateConfidence ftype txt position content \<and>
    calculateConfidence ftype txt position content \<le> 1"
    using calculateConfidence_ge_half calculateConfidence_le_one by simp
  show "\<forall>t\<in>set (run commands). 1 / 2 \<le> confidence t \<and> confidence t \<le> 1"
    unfolding run_def by (rule run_confidence) simp
qed

theorem confidence_bounds_witness:
  "run [Rescan ''SEA124 1234567'', Remap 0 ''job_name''] \<noteq> [] \<and>
   1 / 2 \<le> confidence (hd (run [Rescan ''SEA124 1234567'', Remap 0 ''job_name''])) \<and>
   confidence (hd (run [Rescan ''SEA124 1234567'', Remap 0 ''job_name''])) \<le> 1"
proof -
  let ?r = "run [Rescan ''SEA124 1234567'', Remap 0 ''job_name'']"
  have ne: "?r \<noteq> []" by code_simp
  then have "hd ?r \<in> set ?r" by simp
  then show ?thesis
    using ne confidence_bounds [of "''job_name''" "''x''" 0 "''x''"
        "[Rescan ''SEA124 1234567'', Remap 0 ''job_name'']"]
    by blast
qed

subsection \<open>The threshold never rejects\<close>

text \<open>
  C9. The scorer returns at least 0.5 for every field type, text, position and
  document, so the check \<open>confidence >= 0.5\<close> of the detector rejects nothing: a
  trimmed match that overlaps no target of the list is appended to it; and after a
  detection pass every match of a pattern of the catalog is in the list, trimmed and
  with its score and field type, unless another target of the list overlaps it.
\<close>

theorem threshold_never_rejects:
  "1 / 2 \<le> calculateConfidence ftype txt position content \<and>
   (\<not> list_ex (\<lambda>t. overlaps t \<lparr>text = trim (snd m), startPos = int (fst m),
          endPos = int (fst m) + int (length (trim (snd m)))\<rparr>) reg \<longrightarrow>
    processMatch content ftype reg m = reg @
      [\<lparr>text = trim (snd m), startPos = int (fst m),
        endPos = int (fst m) + int (length (trim (snd m))),
        confidence = calculateConfidence ftype (trim (snd m)) (int (fst m)) content,
        fieldType = Some ftype,
        context = Some (getTargetContext content (int (fst m))
                    (int (fst m) + int (length (trim (snd m)))))\<rparr>]) \<and>
   ((ftype, patterns) \<in> set patternRules \<and> pattern \<in> set patterns \<and>
    m \<in> set (matchAll content pattern) \<longrightarrow>
      \<lparr>text = trim (snd m), startPos = int (fst m),
        endPos = int (fst m) + int (length (trim (snd m))),
        confidence = calculateConfidence ftype (trim (snd m)) (int (fst m)) content,
        fieldType = Some ftype,
        context = Some (getTargetContext content (int (fst m))
                    (int (fst m) + int (length (trim (snd m)))))\<rparr>
        \<in> set (autoDetectParserTargets content) \<or>
      list_ex (\<lambda>t. t \<noteq> \<lparr>text = trim (snd m), startPos = int (fst m),
            endPos = int (fst m) + int (length (trim (snd m))),
            confidence = calculateConfidence ftype (trim (snd m)) (int (fst m)) content,
            fieldType = Some ftype,
            context = Some (getTargetContext content (int (fst m))
                        (int (fst m) + int (length (trim (snd m)))))\<rparr> \<and>
          overlaps t \<lparr>text = trim (snd m), startPos = int (fst m),
            endPos = int (fst m) + int (length (trim (snd m)))\<rparr>)
        (autoDetectParserTargets content))"
proof (intro conjI impI)
  show "1 / 2 \<le> calculateConfidence ftype txt position content"
    by (rule calculateConfidence_ge_half)
next
  assume "\<not> list_ex (\<lambda>t. overlaps t \<lparr>text = trim (snd m), startPos = int (fst m),
          endPos = int (fst m) + int (length (trim (snd m)))\<rparr>) reg"
  then show "processMatch content ftype reg m = reg @
      [\<lparr>text = trim (snd m), startPos = int (fst m),
        endPos = int (fst m) + int (length (trim (snd m))),
        confidence = calculateConfidence ftype (trim (snd m)) (int (fst m)) content,
        fieldType = Some ftype,
        context = Some (getTargetContext content (int (fst m))
                    (int (fst m) + int (length (trim (snd m)))))\<rparr>]"
    using calculateConfidence_ge_half [of ftype "trim (snd m)" "int (fst m)" content]
    by (simp add: processMatch_def Let_def)
next
  assume "(ftype, patterns) \<in> set patternRules \<and> pattern \<in> set patterns \<and>
    m \<in> set (matchAll content pattern)"
  then show "\<lparr>text = trim (snd m), startPos = int (fst m),
        endPos = int (fst m) + int (length (trim (snd m))),
        confidence = calculateConfidence ftype (trim (snd m)) (int (fst m)) content,
        fieldType = Some ftype,
        context = Some (getTargetContext content (int (fst m))
                    (int (fst m) + int (length (trim (snd m)))))\<rparr>
        \<in> set (autoDetectParserTargets content) \<or>
      list_ex (\<lambda>t. t \<noteq> \<lparr>text = trim (snd m), startPos = int (fst m),
            endPos = int (fst m) + int (length (trim (snd m))),
            confidence = calculateConfidence ftype (trim (snd m)) (int (fst m)) content,
            fieldType = Some ftype,
            context = Some (getTargetContext content (int (fst m))
                        (int (fst m) + int (length (trim (snd m)))))\<rparr> \<and>
          overlaps t \<lparr>text = trim (snd m), startPos = int (fst m),
            endPos = int (fst m) + int (length (trim (snd m)))\<rparr>)
        (autoDetectParserTargets content)"
    using detect_complete [of ftype patterns pattern m content] by blast
qed

theorem threshold_never_rejects_witness:
  "(''job_name'',
      [[WordB, Alt [''Service Call'', ''Alarm''], WordB, Rep not_terminator 0 None],
       [WordB, Alt [''Device Offline'', ''Line Error'', ''Alarm Active''], WordB,
        Rep not_terminator 0 None]]) \<in> set patternRules \<and>
   (2, ''Alarm 12 '') \<in> set (matchAll ''a Alarm 12 . x''
       [WordB, Alt [''Service Call'', ''Alarm''], WordB, Rep not_terminator 0 None]) \<and>
   processMatch ''a Alarm 12 . x'' ''job_name'' [] (2, ''Alarm 12 '') =
     [\<lparr>text = ''Alarm 12'', startPos = 2, endPos = 10,
       confidence = calculateConfidence ''job_name'' ''Alarm 12'' 2 ''a Alarm 12 . x'',
       fieldType = Some ''job_name'',
       context = Some (getTargetContext ''a Alarm 12 . x'' 2 10)\<rparr>] \<and>
   \<lparr>text = ''Alarm 12'', startPos = 2, endPos = 10,
     confidence = calculateConfidence ''job_name'' ''Alarm 12'' 2 ''a Alarm 12 . x'',
     fieldType = Some ''job_name'',
     context = Some (getTargetContext ''a Alarm 12 . x'' 2 10)\<rparr>
     \<in> set (autoDetectParserTargets ''a Alarm 12 . x'')"
proof -
  let ?doc = "''a Alarm 12 . x''"
  let ?p = "[WordB, Alt [''Service Call'', ''Alarm''], WordB, Rep not_terminator 0 None]"
  let ?ps = "[?p, [WordB, Alt [''Device Offline'', ''Line Error'', ''Alarm Active''], WordB,
        Rep not_terminator 0 None]]"
  let ?T = "\<lparr>text = ''Alarm 12'', startPos = 2, endPos = 10,
     confidence = calculateConfidence ''job_name'' ''Alarm 12'' 2 ?doc,
     fieldType = Some ''job_name'',
     context = Some (getTargetContext ?doc 2 10)\<rparr>"
  have r: "(''job_name'', ?ps) \<in> set patternRules" by (simp add: patternRules_def)
  have p: "?p \<in> set ?ps" by simp
  have m: "(2, ''Alarm 12 '') \<in> set (matchAll ?doc ?p)" by code_simp
  have t: "trim ''Alarm 12 '' = ''Alarm 12''" by code_simp
  have e: "\<not> list_ex (\<lambda>t. overlaps t \<lparr>text = ''Alarm 12'', startPos = 2, endPos = 10\<rparr>) []"
    by simp
  have n: "\<not> list_ex (\<lambda>t. t \<noteq> ?T \<and> overlaps t \<lparr>text = ''Alarm 12'', startPos = 2, endPos = 10\<rparr>)
      (autoDetectParserTargets ?doc)"
    by code_simp
  note th = threshold_never_rejects [of "''job_name''" "''Alarm 12''" 2 ?doc "(2, ''Alarm 12 '')"
      "[]" ?ps ?p]
  from th e have 1: "processMatch ?doc ''job_name'' [] (2, ''Alarm 12 '') = [?T]"
    by (simp add: t)
  from th r p m n have 2: "?T \<in> set (autoDetectParserTargets ?doc)"
    by (simp add: t)
  from r m 1 2 show ?thesis by (intro conjI)
qed

subsection \<open>Detected targets do not overlap\<close>

text \<open>
  C2. After a detection pass no two targets of the list overlap, where two spans
  overlap unless one ends at or before the start of the other; and a match whose
  trimmed span overlaps a target already in the list is dropped, whatever it would have
  scored, so that the target accepted first stays.
\<close>

theorem detection_no_overlap:
  "(\<forall>i j. i < length (autoDetectParserTargets content) \<and>
          j < length (autoDetectParserTargets content) \<and> i \<noteq> j \<longrightarrow>
      \<not> overlaps (autoDetectParserTargets content ! i) (autoDetectParserTargets content ! j)) \<and>
   overlaps a b = (\<not> (endPos a \<le> startPos b \<or> endPos b \<le> startPos a)) \<and>
   (list_ex (\<lambda>t. overlaps t \<lparr>text = trim (snd m), startPos = int (fst m),
          endPos = int (fst m) + int (length (trim (snd m)))\<rparr>) reg \<longrightarrow>
    processMatch content ftype reg m = reg)"
  using detect_no_overlap [of _ content]
  by (simp add: processMatch_def Let_def overlaps_def [of a b])

theorem detection_no_overlap_witness:
  "length (autoDetectParserTargets ''SEA124 1234567'') = 2 \<and>
   \<not> overlaps (autoDetectParserTargets ''SEA124 1234567'' ! 0)
       (autoDetectParserTargets ''SEA124 1234567'' ! 1) \<and>
   list_ex (\<lambda>t. overlaps t \<lparr>text = ''SEA124'', startPos = 0, endPos = 6\<rparr>)
       (autoDetectParserTargets ''SEA124 1234567'') \<and>
   processMatch ''SEA124 1234567'' ''building_code'' (autoDetectParserTargets ''SEA124 1234567'')
       (0, ''SEA124'') = autoDetectParserTargets ''SEA124 1234567''"
proof -
  let ?R = "autoDetectParserTargets ''SEA124 1234567''"
  have l: "length ?R = 2" by code_simp
  have t: "trim ''SEA124'' = ''SEA124''" by code_simp
  have o: "list_ex (\<lambda>t. overlaps t \<lparr>text = ''SEA124'', startPos = 0, endPos = 6\<rparr>) ?R"
    by code_simp
  note th = detection_no_overlap [of "''SEA124 1234567''" "?R ! 0" "?R ! 1" "(0, ''SEA124'')" ?R
        "''building_code''"]
  from th have "\<forall>i j. i < length ?R \<and> j < length ?R \<and> i \<noteq> j \<longrightarrow> \<not> overlaps (?R ! i) (?R ! j)"
    by (rule conjunct1)
  from this [rule_format, of 0 1] have n: "\<not> overlaps (?R ! 0) (?R ! 1)"
    using l by simp
  from th o have "processMatch ''SEA124 1234567'' ''building_code'' ?R (0, ''SEA124'') = ?R"
    by (simp add: t)
  with l n o show ?thesis by simp
qed

subsection \<open>Field reassignment\<close>

text \<open>
  C8. Reassigning the field of the target at \<open>index\<close> writes only its \<open>fieldType\<close>
  and its \<open>confidence\<close>: the text, the offsets and the context of that target, every
  other target and the length of the list stay as they were. The field type becomes the
  new one; the confidence becomes \<open>min(1.0, confidence + 0.2)\<close> unless the new field type
  is \<open>unmapped\<close>, which leaves it alone; and a confidence between 0 and 1 never goes
  down.
\<close>

theorem updateTargetMapping_frame:
  "let updated = updateTargetMapping index newFieldType reg;
       old = reg ! nat index;
       new = updated ! nat index
   in length updated = length reg \<and>
      (\<forall>k<length reg. int k \<noteq> index \<longrightarrow> updated ! k = reg ! k) \<and>
      (0 \<le> index \<and> index < int (length reg) \<longrightarrow>
         text new = text old \<and> startPos new = startPos old \<and> endPos new = endPos old \<and>
         context new = context old \<and>
         fieldType new = Some newFieldType \<and>
         confidence new =
           (if newFieldType \<noteq> ''unmapped''
            then min 1 (fadd (confidence old) (double_round (2 / 10)))
            else confidence old) \<and>
         (0 \<le> confidence old \<and> confidence old \<le> 1 \<longrightarrow> confidence old \<le> confidence new))"
proof -
  have "confidence (reg ! nat index)
      \<le> min 1 (fadd (confidence (reg ! nat index)) (double_round (2 / 10)))"
    if "0 \<le> confidence (reg ! nat index)" "confidence (reg ! nat index) \<le> 1"
    using fadd_two_tenths_ge [OF that] that by simp
  then show ?thesis
    by (auto simp: updateTargetMapping_def Let_def nat_less_iff)
qed

theorem updateTargetMapping_frame_witness:
  "let reg = [\<lparr>text = ''SEA124'', startPos = 0, endPos = 6, confidence = 1 / 2,
                fieldType = Some ''building_code'', context = None\<rparr>,
              \<lparr>text = ''1234567'', startPos = 7, endPos = 14, confidence = 1,
                fieldType = Some ''device_id'', context = None\<rparr>];
       updated = updateTargetMapping 0 ''job_number'' reg
   in (0::int) \<le> 0 \<and> (0::int) < int (length reg) \<and>
      updated ! 1 = reg ! 1 \<and>
      text (updated ! 0) = ''SEA124'' \<and> startPos (updated ! 0) = 0 \<and> endPos (updated ! 0) = 6 \<and>
      fieldType (updated ! 0) = Some ''job_number'' \<and>
      confidence (reg ! 0) \<le> confidence (updated ! 0)"
  using updateTargetMapping_frame [of 0 "''job_number''"
      "[\<lparr>text = ''SEA124'', startPos = 0, endPos = 6, confidence = 1 / 2,
          fieldType = Some ''building_code'', context = None\<rparr>,
        \<lparr>text = ''1234567'', startPos = 7, endPos = 14, confidence = 1,
          fieldType = Some ''device_id'', context = None\<rparr>]"]
  by (simp add: Let_def updateTargetMapping_def)
subsection \<open>Job name targets\<close>

text \<open>
  C6, as the claim states it: every target detected as \<open>job_name\<close> begins with
  \<open>Service Call\<close> or \<open>Alarm\<close>. It fails on a document that begins with
  \<open>Device Offline\<close>: the second pattern under \<open>job_name\<close> accepts that keyword, and
  \<open>Line Error\<close> too.
\<close>

theorem job_name_counterexample:
  "\<not> (\<forall>t\<in>set (autoDetectParserTargets ''Device Offline at door 5. ok'').
        fieldType t = Some ''job_name'' \<longrightarrow>
        prefix ''Service Call'' (text t) \<or> prefix ''Alarm'' (text t))"
  by code_simp

text \<open>
  C6, amended: every target detected as \<open>job_name\<close> has a text that begins with one
  of the keywords \<open>Service Call\<close>, \<open>Alarm\<close> (which covers \<open>Alarm Active\<close>),
  \<open>Device Offline\<close> or \<open>Line Error\<close>, and holds no \<open>.\<close>, \<open>!\<close>, \<open>?\<close> or line
  feed: it is the trimmed run of the document from the keyword up to the next of these
  characters, or to the end of the document.
\<close>

theorem job_name_targets:
  assumes "t \<in> set (autoDetectParserTargets content)" and "fieldType t = Some ''job_name''"
  shows "(prefix ''Service Call'' (text t) \<or> prefix ''Alarm'' (text t) \<or>
          prefix ''Device Offline'' (text t) \<or> prefix ''Line Error'' (text t)) \<and>
         (\<forall>c\<in>set (text t). c \<notin> {CHR ''.'', CHR ''!'', CHR ''?'', CHR 0x0A}) \<and>
         (\<exists>j m. startPos t = int j \<and> j + m \<le> length content \<and>
                text t = trim (take m (drop j content)) \<and>
                (j + m < length content \<longrightarrow>
                   content ! (j + m) \<in> {CHR ''.'', CHR ''!'', CHR ''?'', CHR 0x0A}))"
proof -
  from detect_provenance [OF assms(1)] assms(2) obtain patterns pattern j s where
    r: "(''job_name'', patterns) \<in> set patternRules" "pattern \<in> set patterns"
    and ms: "(j, s) \<in> set (matchAll content pattern)"
    and t: "text t = trim s" "startPos t = int j"
    by auto
  from matchAll_from_match [OF ms [unfolded matchAll_def]] obtain p m where
    j: "j \<le> length content" and mh: "match_here pattern p (drop j content) = Some m"
    and s: "s = take m (drop j content)"
    by blast
  let ?T = "trim (take m (drop j content))"
  have "(prefix ''Service Call'' ?T \<or> prefix ''Alarm'' ?T \<or>
          prefix ''Device Offline'' ?T \<or> prefix ''Line Error'' ?T) \<and>
        (\<forall>c\<in>set ?T. in_charset not_terminator c) \<and> j + m \<le> length content \<and>
        (j + m < length content \<longrightarrow> \<not> in_charset not_terminator (content ! (j + m)))"
    using job_name_patterns [OF r]
  proof
    assume "pattern = [WordB, Alt [''Service Call'', ''Alarm''], WordB, Rep not_terminator 0 None]"
    note k = keyword_target [OF mh [unfolded this] j job_name_keywords(1)]
    from k(1) have "prefix ''Service Call'' ?T \<or> prefix ''Alarm'' ?T" by simp
    with k(2,3,4) show ?thesis by blast
  next
    assume "pattern = [WordB, Alt [''Device Offline'', ''Line Error'', ''Alarm Active''], WordB,
                    Rep not_terminator 0 None]"
    note k = keyword_target [OF mh [unfolded this] j job_name_keywords(2)]
    have "prefix ''Alarm'' ''Alarm Active''" by simp
    then have "prefix ''Alarm Active'' ?T \<Longrightarrow> prefix ''Alarm'' ?T"
      by (rule prefix_order.trans)
    with k(1) have "prefix ''Device Offline'' ?T \<or> prefix ''Line Error'' ?T \<or> prefix ''Alarm'' ?T"
      by auto
    with k(2,3,4) show ?thesis by blast
  qed
  then show ?thesis unfolding t s by auto
qed

theorem job_name_targets_witness:
  "\<exists>t\<in>set (autoDetectParserTargets ''Device Offline at door 5. ok'').
      fieldType t = Some ''job_name'' \<and>
      (prefix ''Service Call'' (text t) \<or> prefix ''Alarm'' (text t) \<or>
       prefix ''Device Offline'' (text t) \<or> prefix ''Line Error'' (text t))"
proof -
  have "\<exists>t\<in>set (autoDetectParserTargets ''Device Offline at door 5. ok'').
      fieldType t = Some ''job_name''"
    by code_simp
  then obtain t where t: "t \<in> set (autoDetectParserTargets ''Device Offline at door 5. ok'')"
    "fieldType t = Some ''job_name''"
    by blast
  from job_name_targets [OF t]
  have "prefix ''Service Call'' (text t) \<or> prefix ''Alarm'' (text t) \<or>
       prefix ''Device Offline'' (text t) \<or> prefix ''Line Error'' (text t)"
    by (rule conjunct1)
  with t show ?thesis by blast
qed


subsection \<open>Scenario 1\<close>

text \<open>
  C5, as the claim states it: \<open>SEA124\<close> scores 0.5 + 0.1 = 0.6 from its own patterns,
  without the bonus of the strict site code pattern. It fails: the strict pattern
  \<^verbatim>\<open>/\bSE[A-Z]\d{3,4}\b/\<close> matches \<open>SEA124\<close>, in the scan and in the scorer.
\<close>

theorem scenario1_site_code_counterexample:
  "matchAll scenario1 [WordB, Lit ''SE'', Rep upper 1 (Some 1), Rep digit 3 (Some 4), WordB] =
     [(27, ''SEA124'')] \<and>
   patternBonus ''building_code'' ''SEA124'' (1 / 2) \<noteq> fadd (1 / 2) (double_round (1 / 10))"
  unfolding scenario1_def by code_simp

text \<open>
  C5, amended: on the text of scenario 1 the detector finds \<open>SEA124\<close> at offsets 27 to
  33 as a \<open>building_code\<close> target, through the strict site code pattern, the first of
  the catalog. Its own patterns give it both bonuses, 0.5 + 0.3 + 0.1 = 0.9; with the
  position bonus its confidence is 1. The other two targets are the device numbers.
\<close>

theorem scenario1_site_code:
  "map (\<lambda>t. (text t, startPos t, endPos t, fieldType t, confidence t))
       (autoDetectParserTargets scenario1) =
     [(''802641'', 18, 24, Some ''device_id'', 9007199254740991 / 9007199254740992),
      (''SEA124'', 27, 33, Some ''building_code'', 1),
      (''P296563983'', 65, 75, Some ''device_id'', 1)] \<and>
   hd (snd (hd patternRules)) = [WordB, Lit ''SE'', Rep upper 1 (Some 1), Rep digit 3 (Some 4), WordB] \<and>
   matchAll scenario1 (hd (snd (hd patternRules))) = [(27, ''SEA124'')] \<and>
   patternBonus ''building_code'' ''SEA124'' (1 / 2) =
     fadd (fadd (1 / 2) (double_round (3 / 10))) (double_round (1 / 10)) \<and>
   patternBonus ''building_code'' ''SEA124'' (1 / 2) = double_round (9 / 10)"
  unfolding scenario1_def by code_simp

subsection \<open>The self-tests of the generated methods\<close>




subsection \<open>An unknown strategy\<close>

text \<open>
  C3, as the claim states it: with the strategy name \<open>sql\<close> the generation fails with
  an error. It does not: no alert is raised, nothing happens at all.
\<close>

theorem unknown_strategy_counterexample:
  "generateRule (\<lambda>s. s) ''sql'' ''buildingCode'' ''SEA124'' \<lparr>start = 27, end = 33\<rparr> = Nothing \<and>
   (\<forall>message. generateRule (\<lambda>s. s) ''sql'' ''buildingCode'' ''SEA124''
        \<lparr>start = 27, end = 33\<rparr> \<noteq> Alert message)"
proof -
  have "generateRule (\<lambda>s. s) ''sql'' ''buildingCode'' ''SEA124'' \<lparr>start = 27, end = 33\<rparr> = Nothing"
    by code_simp
  then show ?thesis by simp
qed

text \<open>
  C3, amended: with a selection and a rule name that are not empty, a strategy name that
  is none of \<open>regex\<close>, \<open>coordinates\<close>, \<open>css\<close>, \<open>xpath\<close> (and no member of
  \<open>Object.prototype\<close>) makes \<open>generateRule\<close> do nothing: no rule is handed to
  \<open>addRuleToOutput\<close>, no other strategy stands in, and no error is reported either.
\<close>

theorem unknown_strategy_silent:
  assumes "selectedText \<noteq> []" and "trim ruleName \<noteq> []"
    and "ruleType \<notin> {''regex'', ''coordinates'', ''css'', ''xpath''}"
    and "ruleType \<notin> set objectPrototypeKeys"
  shows "generateRule toUpperCase ruleType ruleName selectedText selectionCoords = Nothing"
  using assms by (simp add: generateRule_def ruleGenerators_def)

theorem unknown_strategy_silent_witness:
  "''SEA124'' \<noteq> [] \<and> trim ''buildingCode'' \<noteq> [] \<and>
   ''sql'' \<notin> {''regex'', ''coordinates'', ''css'', ''xpath''} \<and>
   ''sql'' \<notin> set objectPrototypeKeys \<and>
   generateRule (\<lambda>s. s) ''sql'' ''buildingCode'' ''SEA124'' \<lparr>start = 27, end = 33\<rparr> = Nothing"
proof -
  have 1: "''SEA124'' \<noteq> []" by simp
  have 2: "trim ''buildingCode'' \<noteq> []" by code_simp
  have 3: "''sql'' \<notin> {''regex'', ''coordinates'', ''css'', ''xpath''}" by simp
  have 4: "''sql'' \<notin> set objectPrototypeKeys" by code_simp
  from unknown_strategy_silent [OF 1 2 3 4] 1 2 3 4 show ?thesis by blast
qed

subsection \<open>Normalizing a buffer\<close>

text \<open>
  C7, as the claim states it: the first encoding is selected whose decoded text has at
  least 30% of its characters among ASCII \<open>0x20\<close> to \<open>0x7E\<close>, the line feed and the tab.
  The buffer \<open>41 0A 0A 0A\<close> read as utf-8 is a letter and three line feeds, all of them
  printable in that sense, yet the normalizer passes utf-8 over, for a line feed is a
  control character to its count, and returns the utf-16le reading, the two code units
  \<open>0x0A41\<close> and \<open>0x0A0A\<close>.
\<close>

theorem normalizer_counterexample:
  "textDecoder ''utf-8'' [0x41, 0x0A, 0x0A, 0x0A] = Some [0x41, 0x0A, 0x0A, 0x0A] \<and>
   spec_qualifies [0x41, 0x0A, 0x0A, 0x0A] \<and>
   convertContentToDisplayableText textDecoder (\<lambda>s. []) (Buffer [0x41, 0x0A, 0x0A, 0x0A])
     (units ''f'') = [0x0A41, 0x0A0A]"
proof -
  let ?B = "[0x41, 0x0A, 0x0A, 0x0A] :: byte list"
  have d1: "textDecoder ''utf-8'' ?B = Some [0x41, 0x0A, 0x0A, 0x0A]"
    by (simp add: textDecoder_def to_units_def drop_bom_def)
  have d2: "textDecoder ''iso-8859-1'' ?B = Some [0x41, 0x0A, 0x0A, 0x0A]"
    by (simp add: textDecoder_def windows1252_decode_def)
  have d3: "textDecoder ''windows-1252'' ?B = Some [0x41, 0x0A, 0x0A, 0x0A]"
    by (simp add: textDecoder_def windows1252_decode_def)
  have d4: "textDecoder ''utf-16le'' ?B = Some [0x0A41, 0x0A0A]"
    by (simp add: textDecoder_def to_units_def drop_bom_def)
  have v1: "\<not> looksValid [0x41, 0x0A, 0x0A, 0x0A]" by code_simp
  have v2: "looksValid [0x0A41, 0x0A0A]" by code_simp
  have s: "stripControls [0x0A41, 0x0A0A] = [0x0A41, 0x0A0A]" by code_simp
  have q: "spec_qualifies [0x41, 0x0A, 0x0A, 0x0A]"
    by (simp add: spec_qualifies_def spec_printable_def)
  have "convertContentToDisplayableText textDecoder (\<lambda>s. []) (Buffer ?B) (units ''f'') =
      [0x0A41, 0x0A0A]"
    by (simp add: convertContentToDisplayableText_def encodings_def d1 d2 d3 d4 v1 v2 s)
  with d1 q show ?thesis by simp
qed

text \<open>
  C7, amended. A string comes back without the characters \<open>0x00\<close> to \<open>0x08\<close>, \<open>0x0B\<close>,
  \<open>0x0C\<close>, \<open>0x0E\<close> to \<open>0x1F\<close> and \<open>0x7F\<close>; the line feed, the tab and the carriage return
  stay. For a buffer the encodings are tried in their order: an encoding whose decoder
  throws, or whose text has fewer than 30% of its code units outside \<open>0x00\<close> to \<open>0x1F\<close>
  and \<open>0x7F\<close>, is passed over, and the first whose text (of at most \<open>2 ^ 52\<close> code units)
  has more than 30% of them outside that range is selected and returned with the same
  characters removed. When every encoding is passed over the result is the hexadecimal
  dump, as rendered: a heading with the file name and the number of bytes, then one line
  for each 16 bytes; apart from the file name it holds only printable ASCII and line
  feeds.
\<close>

theorem normalizer_selection:
  "convertContentToDisplayableText decode encode (Text s) filename =
     filter (\<lambda>c. c \<notin> {0x00..0x08} \<union> {0x0B, 0x0C} \<union> {0x0E..0x1F} \<union> {0x7F}) s \<and>
   (i < length encodings \<and>
    (\<forall>j<i. \<forall>d. decode (encodings ! j) bytes = Some d \<longrightarrow>
       10 * length (filter (\<lambda>c. \<not> is_control c) d) < 3 * length d) \<and>
    decode (encodings ! i) bytes = Some decoded \<and>
    3 * length decoded < 10 * length (filter (\<lambda>c. \<not> is_control c) decoded) \<and>
    length decoded \<le> 2 ^ 52 \<longrightarrow>
      convertContentToDisplayableText decode encode (Buffer bytes) filename =
        filter (\<lambda>c. c \<notin> {0x00..0x08} \<union> {0x0B, 0x0C} \<union> {0x0E..0x1F} \<union> {0x7F}) decoded) \<and>
   ((\<forall>j<length encodings. \<forall>d. decode (encodings ! j) bytes = Some d \<longrightarrow>
       10 * length (filter (\<lambda>c. \<not> is_control c) d) < 3 * length d) \<longrightarrow>
      convertContentToDisplayableText decode encode (Buffer bytes) filename =
        units ''Hexadecimal dump of '' @ filename @ units '' ('' @
        units (show_nat (length bytes)) @ units '' bytes):'' @ [0x0A, 0x0A] @
        units (join [CHR 0x0A] (hexLines 0 bytes)) \<and>
      length (hexLines 0 bytes) = (length bytes + 15) div 16 \<and>
      (\<forall>k<length (hexLines 0 bytes).
         hexLines 0 bytes ! k = hexLine (16 * k) (take 16 (drop (16 * k) bytes))) \<and>
      (\<forall>u\<in>set (convertContentToDisplayableText decode encode (Buffer bytes) filename).
         u \<in> set filename \<or> (32 \<le> u \<and> u \<le> 126) \<or> u = 10))"
proof (intro conjI impI)
  show "convertContentToDisplayableText decode encode (Text s) filename =
     filter (\<lambda>c. c \<notin> {0x00..0x08} \<union> {0x0B, 0x0C} \<union> {0x0E..0x1F} \<union> {0x7F}) s"
    by (simp add: convertContentToDisplayableText_def stripControls_filter)
next
  assume a: "i < length encodings \<and>
    (\<forall>j<i. \<forall>d. decode (encodings ! j) bytes = Some d \<longrightarrow>
       10 * length (filter (\<lambda>c. \<not> is_control c) d) < 3 * length d) \<and>
    decode (encodings ! i) bytes = Some decoded \<and>
    3 * length decoded < 10 * length (filter (\<lambda>c. \<not> is_control c) decoded) \<and>
    length decoded \<le> 2 ^ 52"
  have r: "\<forall>j<i. case decode (encodings ! j) bytes of None \<Rightarrow> True | Some d \<Rightarrow> \<not> looksValid d"
  proof (intro allI impI)
    fix j assume j: "j < i"
    show "case decode (encodings ! j) bytes of None \<Rightarrow> True | Some d \<Rightarrow> \<not> looksValid d"
    proof (cases "decode (encodings ! j) bytes")
      case None
      then show ?thesis by simp
    next
      case (Some d)
      with a j have "10 * length (filter (\<lambda>c. \<not> is_control c) d) < 3 * length d" by simp
      then have "\<not> looksValid d" using looksValid_more_than_30 [of d] by auto
      with Some show ?thesis by simp
    qed
  qed
  have v: "looksValid decoded" using a by (simp add: looksValid_if_more_than_30)
  have "tryEncodings decode bytes encodings = Some (stripControls decoded)"
    using a r v by (intro tryEncodings_first [of i]) simp_all
  then show "convertContentToDisplayableText decode encode (Buffer bytes) filename =
      filter (\<lambda>c. c \<notin> {0x00..0x08} \<union> {0x0B, 0x0C} \<union> {0x0E..0x1F} \<union> {0x7F}) decoded"
    by (simp add: convertContentToDisplayableText_def stripControls_filter)
next
  assume a: "\<forall>j<length encodings. \<forall>d. decode (encodings ! j) bytes = Some d \<longrightarrow>
       10 * length (filter (\<lambda>c. \<not> is_control c) d) < 3 * length d"
  have r: "\<forall>j<length encodings.
      case decode (encodings ! j) bytes of None \<Rightarrow> True | Some d \<Rightarrow> \<not> looksValid d"
  proof (intro allI impI)
    fix j assume j: "j < length encodings"
    show "case decode (encodings ! j) bytes of None \<Rightarrow> True | Some d \<Rightarrow> \<not> looksValid d"
    proof (cases "decode (encodings ! j) bytes")
      case None
      then show ?thesis by simp
    next
      case (Some d)
      with a j have "10 * length (filter (\<lambda>c. \<not> is_control c) d) < 3 * length d" by simp
      then have "\<not> looksValid d" using looksValid_more_than_30 [of d] by auto
      with Some show ?thesis by simp
    qed
  qed
  have n: "tryEncodings decode bytes encodings = None" using r by (rule tryEncodings_none)
  then have e: "convertContentToDisplayableText decode encode (Buffer bytes) filename =
      convertContentToHex encode (Buffer bytes) filename"
    by (simp add: convertContentToDisplayableText_def)
  then show "convertContentToDisplayableText decode encode (Buffer bytes) filename =
        units ''Hexadecimal dump of '' @ filename @ units '' ('' @
        units (show_nat (length bytes)) @ units '' bytes):'' @ [0x0A, 0x0A] @
        units (join [CHR 0x0A] (hexLines 0 bytes))"
    by (simp add: convertContentToHex_def)
  show "length (hexLines 0 bytes) = (length bytes + 15) div 16" by (rule length_hexLines)
  show "\<forall>k<length (hexLines 0 bytes).
         hexLines 0 bytes ! k = hexLine (16 * k) (take 16 (drop (16 * k) bytes))"
    using nth_hexLines [of _ 0 bytes] by simp
  show "\<forall>u\<in>set (convertContentToDisplayableText decode encode (Buffer bytes) filename).
         u \<in> set filename \<or> (32 \<le> u \<and> u \<le> 126) \<or> u = 10"
    unfolding e using hex_dump_units [of _ encode bytes filename] by blast
qed

theorem normalizer_selection_witness:
  "convertContentToDisplayableText textDecoder (\<lambda>s. [])
     (Text [0x41, 0x00, 0x07, 0x0A, 0x09, 0x0D, 0x7F, 0x42]) (units ''f'') =
     [0x41, 0x0A, 0x09, 0x0D, 0x42] \<and>
   convertContentToDisplayableText textDecoder (\<lambda>s. []) (Buffer [0x41, 0x0A, 0x0A, 0x0A])
     (units ''f'') = [0x0A41, 0x0A0A] \<and>
   convertContentToDisplayableText textDecoder (\<lambda>s. []) (Buffer [0x00, 0x00]) (units ''f'') =
     units ''Hexadecimal dump of f (2 bytes):'' @ [0x0A, 0x0A] @
     units ''00000000: 00 00                                            |..              |''"
proof -
  let ?B = "[0x41, 0x0A, 0x0A, 0x0A] :: byte list"
  let ?Z = "[0x00, 0x00] :: byte list"
  let ?D = "[0x0A41, 0x0A0A] :: nat list"
  have d1: "textDecoder ''utf-8'' ?B = Some [0x41, 0x0A, 0x0A, 0x0A]"
    by (simp add: textDecoder_def to_units_def drop_bom_def)
  have d2: "textDecoder ''iso-8859-1'' ?B = Some [0x41, 0x0A, 0x0A, 0x0A]"
    by (simp add: textDecoder_def windows1252_decode_def)
  have d3: "textDecoder ''windows-1252'' ?B = Some [0x41, 0x0A, 0x0A, 0x0A]"
    by (simp add: textDecoder_def windows1252_decode_def)
  have d4: "textDecoder ''utf-16le'' ?B = Some ?D"
    by (simp add: textDecoder_def to_units_def drop_bom_def)
  have h1: "3 < length encodings \<and>
    (\<forall>j<3. \<forall>d. textDecoder (encodings ! j) ?B = Some d \<longrightarrow>
       10 * length (filter (\<lambda>c. \<not> is_control c) d) < 3 * length d) \<and>
    textDecoder (encodings ! 3) ?B = Some ?D \<and>
    3 * length ?D < 10 * length (filter (\<lambda>c. \<not> is_control c) ?D) \<and>
    length ?D \<le> 2 ^ 52"
    by (simp add: numeral_3_eq_3 All_less_Suc encodings_def d1 d2 d3 d4 is_control_def)
  have z1: "textDecoder ''utf-8'' ?Z = Some [0, 0]"
    by (simp add: textDecoder_def to_units_def drop_bom_def)
  have z2: "textDecoder ''iso-8859-1'' ?Z = Some [0, 0]"
    by (simp add: textDecoder_def windows1252_decode_def)
  have z3: "textDecoder ''windows-1252'' ?Z = Some [0, 0]"
    by (simp add: textDecoder_def windows1252_decode_def)
  have z4: "textDecoder ''utf-16le'' ?Z = Some [0]"
    by (simp add: textDecoder_def to_units_def drop_bom_def)
  have z5: "textDecoder ''utf-16be'' ?Z = Some [0]"
    by (simp add: textDecoder_def to_units_def drop_bom_def)
  have h2: "\<forall>j<length encodings. \<forall>d. textDecoder (encodings ! j) ?Z = Some d \<longrightarrow>
       10 * length (filter (\<lambda>c. \<not> is_control c) d) < 3 * length d"
    by (simp add: All_less_Suc encodings_def z1 z2 z3 z4 z5 is_control_def)
  have l: "hexLines 0 ?Z =
      [''00000000: 00 00                                            |..              |'']"
    by (simp add: hexLines.simps hexLine_def padStart_def toString16_def hex_digit_def
        upt_rec [of 0 16] upt_rec [of _ "numeral n" for n]) code_simp
  have n: "show_nat (Suc (Suc 0)) = ''2''" by code_simp
  have t: "filter (\<lambda>c. c \<notin> {0x00..0x08} \<union> {0x0B, 0x0C} \<union> {0x0E..0x1F} \<union> {0x7F})
      [0x41, 0x00, 0x07, 0x0A, 0x09, 0x0D, 0x7F, 0x42] = [0x41, 0x0A, 0x09, 0x0D, 0x42 :: nat]"
    by simp
  have s: "filter (\<lambda>c. c \<notin> {0x00..0x08} \<union> {0x0B, 0x0C} \<union> {0x0E..0x1F} \<union> {0x7F}) ?D = ?D"
    by simp
  have "convertContentToDisplayableText textDecoder (\<lambda>s. [])
     (Text [0x41, 0x00, 0x07, 0x0A, 0x09, 0x0D, 0x7F, 0x42]) (units ''f'') =
     filter (\<lambda>c. c \<notin> {0x00..0x08} \<union> {0x0B, 0x0C} \<union> {0x0E..0x1F} \<union> {0x7F})
       [0x41, 0x00, 0x07, 0x0A, 0x09, 0x0D, 0x7F, 0x42]"
    using normalizer_selection [where decode = textDecoder and encode = "\<lambda>s. []"
        and s = "[0x41, 0x00, 0x07, 0x0A, 0x09, 0x0D, 0x7F, 0x42]" and filename = "units ''f''"
        and i = 3 and bytes = ?B and decoded = ?D]
    by (rule conjunct1)
  then have c1: "convertContentToDisplayableText textDecoder (\<lambda>s. [])
     (Text [0x41, 0x00, 0x07, 0x0A, 0x09, 0x0D, 0x7F, 0x42]) (units ''f'') =
     [0x41, 0x0A, 0x09, 0x0D, 0x42]"
    by (simp only: t)
  have "convertContentToDisplayableText textDecoder (\<lambda>s. []) (Buffer ?B) (units ''f'') =
     filter (\<lambda>c. c \<notin> {0x00..0x08} \<union> {0x0B, 0x0C} \<union> {0x0E..0x1F} \<union> {0x7F}) ?D"
    using normalizer_selection [where decode = textDecoder and encode = "\<lambda>s. []"
        and s = "[]" and filename = "units ''f''" and i = 3 and bytes = ?B and decoded = ?D] h1
    by blast
  then have c2: "convertContentToDisplayableText textDecoder (\<lambda>s. []) (Buffer ?B) (units ''f'') = ?D"
    by (simp only: s)
  have "convertContentToDisplayableText textDecoder (\<lambda>s. []) (Buffer ?Z) (units ''f'') =
      units ''Hexadecimal dump of '' @ units ''f'' @ units '' ('' @
      units (show_nat (length ?Z)) @ units '' bytes):'' @ [0x0A, 0x0A] @
      units (join [CHR 0x0A] (hexLines 0 ?Z))"
    using normalizer_selection [where decode = textDecoder and encode = "\<lambda>s. []"
        and s = "[]" and filename = "units ''f''" and i = 0 and bytes = ?Z and decoded = "[]"] h2
    by blast
  then have c3: "convertContentToDisplayableText textDecoder (\<lambda>s. []) (Buffer ?Z) (units ''f'') =
     units ''Hexadecimal dump of f (2 bytes):'' @ [0x0A, 0x0A] @
     units ''00000000: 00 00                                            |..              |''"
    by (simp add: l n units_def)
  from c1 c2 c3 show ?thesis by (intro conjI)
qed

end
